theory Spec2Isabelle
  imports Complex_Main "HOL-Library.Multiset"
begin

section \<open>Data model\<close>

text \<open>
  The application computes with JavaScript numbers. They are modelled as exact real
  numbers: rounding is not modelled, and the two infinities appear only where the code
  uses them as sentinels (\<open>calculateBounds\<close>, \<open>calculateProximityScores\<close>).
  The value \<open>null\<close> is \<open>None\<close>.
\<close>

text \<open>A coordinate pair \<open>{ lat, lon }\<close>, in degrees.\<close>

record point =
  lat :: real
  lon :: real

text \<open>
  A business as loaded into \<open>allBusinesses\<close>: a point with an id, a name and an
  optional category (\<open>b.category\<close> may be undefined).
\<close>

record business = point +
  business_id :: int
  name :: string
  category :: "string option"

text \<open>\<open>{ minLat, maxLat, minLon, maxLon }\<close>; the number type is a parameter because
  \<open>calculateBounds\<close> can return the infinite sentinels.\<close>

record 'n bbox =
  minLat :: 'n
  maxLat :: 'n
  minLon :: 'n
  maxLon :: 'n

text \<open>A number that may be one of the two infinities.\<close>

datatype ext = NegInf | Fin real | PosInf

text \<open>The running minimum of the scorer: \<open>Infinity\<close> until a business has been seen.\<close>

datatype dist = Infinity | Km real

text \<open>
  A grid cell as pushed by \<open>generateGridCells\<close>. The fields \<open>minDistance\<close> and
  \<open>businessCount\<close> do not exist until a scoring pass adds them, so they are optional.
  \<open>businessesByCategory\<close> is an object keyed by category; it is an association list in
  insertion order.
\<close>

record cell =
  cell_id :: nat
  row :: nat
  col :: nat
  centerLat :: real
  centerLon :: real
  geometry :: "point list"
  bounds :: "real bbox"
  area :: real
  proximityScore :: real
  nearestBusiness :: "business option"
  businesses :: "business list"
  businessesByCategory :: "(string \<times> business list) list"
  minDistance :: "dist option"
  businessCount :: "nat option"

text \<open>A boundary segment as built by \<open>buildGeometryFromRelationData\<close>:
  \<open>startNode = coords[0]\<close> and \<open>endNode = coords[coords.length - 1]\<close>, undefined
  (\<open>None\<close>) when read from an empty array.\<close>

record way =
  way_id :: int
  coords :: "point list"
  startNode :: "point option"
  endNode :: "point option"

record region =
  south :: real
  west :: real
  north :: real
  east :: real

section \<open>Constants\<close>

definition PORTLAND_BBOX :: region where
  "PORTLAND_BBOX = \<lparr>south = 45.43, west = -122.84, north = 45.65, east = -122.47\<rparr>"

definition GRID_SIZE_KM :: real where
  "GRID_SIZE_KM = 0.804"

definition GRID_LAT_STEP :: real where
  "GRID_LAT_STEP = 0.00724"

definition GRID_LON_STEP :: real where
  "GRID_LON_STEP = 0.0103"

section \<open>Grid builder\<close>

text \<open>The body of the two nested loops of \<open>generateGridCells\<close>: the cell pushed for
  row \<open>i\<close> and column \<open>j\<close>, given the number of columns. The arithmetic is exact
  here. In binary64 the north edge of a row, \<open>(south + i * step) + step\<close>, and the south
  edge of the next row, \<open>south + (i + 1) * step\<close>, can differ in the last bit (and
  likewise for columns), so no statement below relies on these two being equal.\<close>

definition gridCell :: "nat \<Rightarrow> nat \<Rightarrow> nat \<Rightarrow> cell" where
  "gridCell lonCells i j =
     (let south = south PORTLAND_BBOX + real i * GRID_LAT_STEP;
          north = south + GRID_LAT_STEP;
          west = west PORTLAND_BBOX + real j * GRID_LON_STEP;
          east = west + GRID_LON_STEP;
          centerLat = (south + north) / 2;
          centerLon = (west + east) / 2;
          geometry = [\<lparr>lat = south, lon = west\<rparr>,
                      \<lparr>lat = north, lon = west\<rparr>,
                      \<lparr>lat = north, lon = east\<rparr>,
                      \<lparr>lat = south, lon = east\<rparr>,
                      \<lparr>lat = south, lon = west\<rparr>]
      in \<lparr>cell_id = i * lonCells + j,
          row = i,
          col = j,
          centerLat = centerLat,
          centerLon = centerLon,
          geometry = geometry,
          bounds = \<lparr>minLat = south, maxLat = north, minLon = west, maxLon = east\<rparr>,
          area = GRID_SIZE_KM * GRID_SIZE_KM,
          proximityScore = 0,
          nearestBusiness = None,
          businesses = [],
          businessesByCategory = [],
          minDistance = None,
          businessCount = None\<rparr>)"

definition latCells :: nat where
  "latCells = nat \<lceil>(north PORTLAND_BBOX - south PORTLAND_BBOX) / GRID_LAT_STEP\<rceil>"

definition lonCells :: nat where
  "lonCells = nat \<lceil>(east PORTLAND_BBOX - west PORTLAND_BBOX) / GRID_LON_STEP\<rceil>"

text \<open>\<open>generateGridCells\<close>: rows outside, columns inside, each cell pushed in turn.\<close>

definition generateGridCells :: "cell list" where
  "generateGridCells =
     concat (map (\<lambda>i. map (\<lambda>j. gridCell lonCells i j) [0..<lonCells]) [0..<latCells])"

section \<open>Geometry kernel\<close>

text \<open>\<open>Math.atan2(y, x)\<close> on real arguments.\<close>

definition atan2 :: "real \<Rightarrow> real \<Rightarrow> real" where
  "atan2 y x =
     (if 0 < x then arctan (y / x)
      else if x < 0 then (if 0 \<le> y then arctan (y / x) + pi else arctan (y / x) - pi)
      else if 0 < y then pi / 2
      else if y < 0 then - pi / 2
      else 0)"

text \<open>\<open>calculateDistance\<close>: the haversine formula with radius 6371 km.\<close>

definition haversine_a :: "real \<Rightarrow> real \<Rightarrow> real \<Rightarrow> real \<Rightarrow> real" where
  "haversine_a lat1 lon1 lat2 lon2 =
     (let dLat = (lat2 - lat1) * pi / 180;
          dLon = (lon2 - lon1) * pi / 180
      in sin (dLat / 2) * sin (dLat / 2) +
         cos (lat1 * pi / 180) * cos (lat2 * pi / 180) *
         sin (dLon / 2) * sin (dLon / 2))"

definition calculateDistance :: "real \<Rightarrow> real \<Rightarrow> real \<Rightarrow> real \<Rightarrow> real" where
  "calculateDistance lat1 lon1 lat2 lon2 =
     (let R = 6371;
          a = haversine_a lat1 lon1 lat2 lon2;
          c = 2 * atan2 (sqrt a) (sqrt (1 - a))
      in R * c)"

text \<open>\<open>Math.min\<close> and \<open>Math.max\<close> of a running bound and a coordinate.\<close>

fun js_min :: "ext \<Rightarrow> real \<Rightarrow> ext" where
  "js_min PosInf x = Fin x"
| "js_min (Fin a) x = Fin (min a x)"
| "js_min NegInf x = NegInf"

fun js_max :: "ext \<Rightarrow> real \<Rightarrow> ext" where
  "js_max NegInf x = Fin x"
| "js_max (Fin a) x = Fin (max a x)"
| "js_max PosInf x = PosInf"

text \<open>The body of the \<open>forEach\<close> of \<open>calculateBounds\<close>. The guard
  \<open>point.lat && point.lon\<close> is false for a coordinate that is \<open>0\<close>.\<close>

definition boundsStep :: "ext bbox \<Rightarrow> point \<Rightarrow> ext bbox" where
  "boundsStep acc p =
     (if lat p \<noteq> 0 \<and> lon p \<noteq> 0
      then \<lparr>minLat = js_min (minLat acc) (lat p),
            maxLat = js_max (maxLat acc) (lat p),
            minLon = js_min (minLon acc) (lon p),
            maxLon = js_max (maxLon acc) (lon p)\<rparr>
      else acc)"

text \<open>\<open>calculateBounds\<close>: \<open>null\<close> for a missing or empty geometry.\<close>

definition calculateBounds :: "point list option \<Rightarrow> ext bbox option" where
  "calculateBounds geom =
     (case geom of
        None \<Rightarrow> None
      | Some g \<Rightarrow>
          if length g = 0 then None
          else Some (foldl boundsStep
                 \<lparr>minLat = PosInf, maxLat = NegInf, minLon = PosInf, maxLon = NegInf\<rparr> g))"

text \<open>One iteration of the shoelace loop of \<open>calculateArea\<close>, for index \<open>i\<close>, on
  the running value \<open>acc\<close> of the variable \<open>area\<close>.
  The coordinates of a \<^typ>\<open>point\<close> are never undefined, so the guard of the loop body
  is true.\<close>

definition shoelaceStep :: "point list \<Rightarrow> real \<Rightarrow> nat \<Rightarrow> real" where
  "shoelaceStep g acc i =
     (let n = length g;
          j = (i + 1) mod n;
          xi = lon (g ! i);
          yi = lat (g ! i);
          xj = lon (g ! j);
          yj = lat (g ! j)
      in acc + xi * yj - xj * yi)"

definition calculateArea :: "point list option \<Rightarrow> real" where
  "calculateArea geom =
     (case geom of
        None \<Rightarrow> 0.01
      | Some g \<Rightarrow>
          if length g < 3 then 0.01
          else
            let area = foldl (shoelaceStep g) 0 [0..<length g];
                areaSqDegrees = \<bar>area / 2\<bar>;
                latKmPerDegree = 111;
                lonKmPerDegree = 111 * cos (north PORTLAND_BBOX * pi / 180);
                areaSqKm = areaSqDegrees * latKmPerDegree * lonKmPerDegree
            in max areaSqKm 0.01)"

section \<open>Proximity scorer\<close>

text \<open>\<open>distance < minDistance\<close>, where \<open>minDistance\<close> may still be \<open>Infinity\<close>.\<close>

fun dist_less :: "real \<Rightarrow> dist \<Rightarrow> bool" where
  "dist_less x Infinity = True"
| "dist_less x (Km m) = (x < m)"

text \<open>The body of the inner \<open>forEach\<close> of \<open>calculateProximityScores\<close>: the state is
  \<open>minDistance\<close>, \<open>nearestBusiness\<close> and the cell, whose \<open>businesses\<close> array the
  body pushes to.\<close>

definition visitBusiness ::
  "dist \<times> business option \<times> cell \<Rightarrow> business \<Rightarrow> dist \<times> business option \<times> cell" where
  "visitBusiness st b =
     (case st of (minDist, nearest, c) \<Rightarrow>
        let distance = calculateDistance (centerLat c) (centerLon c) (lat b) (lon b);
            (minDist', nearest') =
               (if dist_less distance minDist then (Km distance, Some b)
                else (minDist, nearest));
            c' = (if lat b \<ge> minLat (bounds c) \<and>
                     lat b \<le> maxLat (bounds c) \<and>
                     lon b \<ge> minLon (bounds c) \<and>
                     lon b \<le> maxLon (bounds c)
                  then c\<lparr>businesses := businesses c @ [b]\<rparr>
                  else c)
        in (minDist', nearest', c'))"

text \<open>\<open>b.category || 'unknown'\<close>: an undefined or empty category is falsy.\<close>

definition categoryKey :: "business \<Rightarrow> string" where
  "categoryKey b =
     (case category b of
        None \<Rightarrow> ''unknown''
      | Some cat \<Rightarrow> if cat = [] then ''unknown'' else cat)"

text \<open>\<open>if (!byCat[cat]) byCat[cat] = []; byCat[cat].push(b)\<close> on an object whose keys
  are category names.\<close>

fun pushCategory ::
  "string \<Rightarrow> business \<Rightarrow> (string \<times> business list) list \<Rightarrow> (string \<times> business list) list" where
  "pushCategory cat b [] = [(cat, [b])]"
| "pushCategory cat b ((k, bs) # rest) =
     (if k = cat then (k, bs @ [b]) # rest else (k, bs) # pushCategory cat b rest)"

text \<open>The body of the outer \<open>forEach\<close>: one cell scored against all businesses.\<close>

definition scoreCell :: "business list \<Rightarrow> cell \<Rightarrow> cell" where
  "scoreCell allBusinesses c =
     (case foldl visitBusiness (Infinity, None, c) allBusinesses of
        (minDist, nearest, c1) \<Rightarrow>
          let c2 = c1\<lparr>nearestBusiness := nearest, minDistance := Some minDist\<rparr>;
              c3 = (case minDist of
                      Km d \<Rightarrow> c2\<lparr>proximityScore := 100 * exp (- d / 0.5)\<rparr>
                    | Infinity \<Rightarrow> c2\<lparr>proximityScore := 0\<rparr>);
              c4 = c3\<lparr>businessCount := Some (length (businesses c3)),
                      businessesByCategory := []\<rparr>
          in c4\<lparr>businessesByCategory :=
                   foldl (\<lambda>m b. pushCategory (categoryKey b) b m) [] (businesses c4)\<rparr>)"

text \<open>
  \<open>Array.prototype.sort\<close> with a comparator is a stable sort: an element goes before
  the elements that the comparator does not put before it, and elements that compare
  equal keep their order. It is modelled as an insertion sort.
\<close>

fun insertBy :: "('a \<Rightarrow> 'a \<Rightarrow> real) \<Rightarrow> 'a \<Rightarrow> 'a list \<Rightarrow> 'a list" where
  "insertBy cmp x [] = [x]"
| "insertBy cmp x (y # ys) =
     (if cmp x y \<le> 0 then x # y # ys else y # insertBy cmp x ys)"

definition js_sort :: "('a \<Rightarrow> 'a \<Rightarrow> real) \<Rightarrow> 'a list \<Rightarrow> 'a list" where
  "js_sort cmp xs = foldr (insertBy cmp) xs []"

text \<open>\<open>calculateProximityScores\<close>, with the globals \<open>allBusinesses\<close> and \<open>gridCells\<close>
  as arguments and the new \<open>gridCells\<close> as result.\<close>

definition calculateProximityScores :: "business list \<Rightarrow> cell list \<Rightarrow> cell list" where
  "calculateProximityScores allBusinesses gridCells =
     js_sort (\<lambda>a b. proximityScore b - proximityScore a)
       (map (scoreCell allBusinesses) gridCells)"

section \<open>Aggregate pipeline\<close>

text \<open>The two globals the pipeline works on.\<close>

record app_state =
  st_gridCells :: "cell list"
  st_allBusinesses :: "business list"

text \<open>The assignment \<open>gridCells = generateGridCells()\<close> of \<open>loadData\<close>.\<close>

definition loadGrid :: "app_state \<Rightarrow> app_state" where
  "loadGrid s = s\<lparr>st_gridCells := generateGridCells\<rparr>"

text \<open>The call \<open>calculateProximityScores()\<close> that opens \<open>renderMap\<close>; the drawing
  that follows only reads \<open>gridCells\<close>.\<close>

definition renderMap :: "app_state \<Rightarrow> app_state" where
  "renderMap s =
     s\<lparr>st_gridCells := calculateProximityScores (st_allBusinesses s) (st_gridCells s)\<rparr>"

text \<open>One aggregate computation: grid generation followed by a scoring pass.\<close>

definition aggregate :: "app_state \<Rightarrow> app_state" where
  "aggregate s = renderMap (loadGrid s)"

section \<open>Boundary reconstructor\<close>

datatype js_error = TypeError

text \<open>\<open>coordsMatch\<close>, the tolerance test of \<open>chainWays\<close>; an undefined argument gives
  \<open>false\<close>.\<close>

fun coordsMatch :: "point option \<Rightarrow> point option \<Rightarrow> bool" where
  "coordsMatch (Some a) (Some b) =
     (let tolerance = 0.0001
      in \<bar>lat a - lat b\<bar> < tolerance \<and> \<bar>lon a - lon b\<bar> < tolerance)"
| "coordsMatch _ _ = False"

text \<open>\<open>xs[0]\<close> and \<open>xs[xs.length - 1]\<close>, undefined on an empty array.\<close>

definition firstOf :: "'a list \<Rightarrow> 'a option" where
  "firstOf xs = (case xs of [] \<Rightarrow> None | x # _ \<Rightarrow> Some x)"

definition lastOf :: "'a list \<Rightarrow> 'a option" where
  "lastOf xs = (if xs = [] then None else Some (last xs))"

text \<open>
  The inner \<open>for\<close> loop of the chaining: the first segment, in input order, whose id
  is not used and whose start (\<open>True\<close>) or else whose end (\<open>False\<close>) matches
  \<open>currentEnd\<close>.
\<close>

fun findNext :: "point option \<Rightarrow> int list \<Rightarrow> way list \<Rightarrow> (way \<times> bool) option" where
  "findNext currentEnd used [] = None"
| "findNext currentEnd used (w # ws) =
     (if way_id w \<in> set used then findNext currentEnd used ws
      else if coordsMatch currentEnd (startNode w) then Some (w, True)
      else if coordsMatch currentEnd (endNode w) then Some (w, False)
      else findNext currentEnd used ws)"

text \<open>
  The \<open>while\<close> loop. The state is \<open>result\<close>, \<open>used\<close> and \<open>currentEnd\<close>. The set
  \<open>used\<close> is the list of its ids: an id is added only when it is not in the set, so
  the length of the list is \<open>used.size\<close>.
\<close>

function growChain ::
  "way list \<Rightarrow> point list \<times> int list \<times> point option \<Rightarrow> point list \<times> int list \<times> point option" where
  "growChain waySegments (result, used, currentEnd) =
     (if length used < length waySegments then
        (case findNext currentEnd used waySegments of
           None \<Rightarrow> (result, used, currentEnd)
         | Some (w, forward) \<Rightarrow>
             if forward
             then growChain waySegments
                    (result @ drop 1 (coords w), way_id w # used, endNode w)
             else growChain waySegments
                    (result @ drop 1 (rev (coords w)), way_id w # used, startNode w))
      else (result, used, currentEnd))"
  by pat_completeness auto
termination
  by (relation "measure (\<lambda>(waySegments, result, used, currentEnd).
        length waySegments - length used)") auto

declare growChain.simps [simp del]

text \<open>The chain grown from one seed segment.\<close>

definition chainFrom :: "way list \<Rightarrow> way \<Rightarrow> point list \<times> int list \<times> point option" where
  "chainFrom waySegments seed =
     growChain waySegments (coords seed, [way_id seed], lastOf (coords seed))"

text \<open>\<open>while (result.length > 1 && coordsMatch(last, last but one)) result.pop()\<close>.\<close>

function popDuplicates :: "point list \<Rightarrow> point list" where
  "popDuplicates result =
     (if length result > 1 \<and>
         coordsMatch (Some (result ! (length result - 1))) (Some (result ! (length result - 2)))
      then popDuplicates (butlast result)
      else result)"
  by pat_completeness auto
termination
  by (relation "measure length") auto

declare popDuplicates.simps [simp del]

text \<open>Closing a chain that used every segment and whose end does not match its first
  point (reached only with a non-empty \<open>result\<close>).\<close>

definition closePolygon :: "point list \<Rightarrow> point list" where
  "closePolygon result =
     (let first = hd result;
          popped = popDuplicates result
      in if \<not> coordsMatch (Some (popped ! (length popped - 1))) (Some (popped ! 0))
         then popped @ [\<lparr>lat = lat first, lon = lon first\<rparr>]
         else popped)"

text \<open>The loop that removes consecutive duplicates from \<open>bestChain\<close>: point \<open>i\<close> is
  kept when it does not match point \<open>i - 1\<close> of \<open>bestChain\<close>.\<close>

fun cleanAfter :: "point \<Rightarrow> point list \<Rightarrow> point list" where
  "cleanAfter prev [] = []"
| "cleanAfter prev (p # ps) =
     (if \<not> coordsMatch (Some p) (Some prev) then p # cleanAfter p ps
      else cleanAfter p ps)"

definition removeConsecutive :: "point list \<Rightarrow> point list" where
  "removeConsecutive bestChain =
     (case bestChain of [] \<Rightarrow> [] | p # ps \<Rightarrow> p # cleanAfter p ps)"

text \<open>The code after the seed loop: what is returned for \<open>bestChain\<close>.\<close>

definition useBest :: "point list option \<Rightarrow> point list option" where
  "useBest bestChain =
     (case bestChain of
        None \<Rightarrow> None
      | Some chain \<Rightarrow>
          if length chain \<ge> 3 then
            let cleaned = removeConsecutive chain;
                cleaned' =
                  (if length cleaned > 0 then
                     let first = hd cleaned;
                         last = last cleaned
                     in if \<not> coordsMatch (Some first) (Some last)
                        then cleaned @ [\<lparr>lat = lat first, lon = lon first\<rparr>]
                        else cleaned
                   else cleaned)
            in if length cleaned' \<ge> 3 then Some cleaned' else None
          else None)"

text \<open>The loop over the seeds, on the seeds still to try, with \<open>bestChain\<close> and
  \<open>bestUsed\<close>.\<close>

fun seedLoop :: "way list \<Rightarrow> way list \<Rightarrow> point list option \<Rightarrow> nat \<Rightarrow> point list option" where
  "seedLoop waySegments [] bestChain bestUsed = useBest bestChain"
| "seedLoop waySegments (seed # rest) bestChain bestUsed =
     (case chainFrom waySegments seed of
        (result, used, currentEnd) \<Rightarrow>
          if length used = length waySegments \<and> coordsMatch currentEnd (firstOf result)
          then Some result
          else if length used = length waySegments \<and> length result > 0
          then Some (closePolygon result)
          else if length used > bestUsed
          then seedLoop waySegments rest (Some result) (length used)
          else seedLoop waySegments rest bestChain bestUsed)"

text \<open>\<open>chainWays\<close>. With a single segment whose \<open>coords\<close> is empty, reading
  \<open>first.lat\<close> throws.\<close>

definition chainWays :: "way list \<Rightarrow> js_error + point list option" where
  "chainWays waySegments =
     (if length waySegments = 0 then Inr None
      else if length waySegments = 1 then
        (case coords (waySegments ! 0) of
           [] \<Rightarrow> Inl TypeError
         | first # _ \<Rightarrow>
             let cs = coords (waySegments ! 0);
                 last = last cs
             in if lat first \<noteq> lat last \<or> lon first \<noteq> lon last
                then Inr (Some (cs @ [\<lparr>lat = lat first, lon = lon first\<rparr>]))
                else Inr (Some cs))
      else Inr (seedLoop waySegments waySegments None 0))"

section \<open>Notions used in the statements\<close>

text \<open>A position lies in a bounding box, edges included (the containment test of the
  scorer), and strictly inside it.\<close>

definition insideBounds :: "real bbox \<Rightarrow> real \<Rightarrow> real \<Rightarrow> bool" where
  "insideBounds bb la lo =
     (minLat bb \<le> la \<and> la \<le> maxLat bb \<and> minLon bb \<le> lo \<and> lo \<le> maxLon bb)"

definition strictlyInside :: "real bbox \<Rightarrow> real \<Rightarrow> real \<Rightarrow> bool" where
  "strictlyInside bb la lo =
     (minLat bb < la \<and> la < maxLat bb \<and> minLon bb < lo \<and> lo < maxLon bb)"

text \<open>The cell that \<open>generateGridCells\<close> returns at the row-major position of row
  \<open>r\<close> and column \<open>c\<close>.\<close>

definition cellAt :: "nat \<Rightarrow> nat \<Rightarrow> cell" where
  "cellAt r c = generateGridCells ! (r * lonCells + c)"

text \<open>
  Following the spec's words, for comparison with the code: the great-circle
  (haversine) distance in kilometres on a sphere of radius 6371 km, in its textbook
  form \<open>2 R arcsin (sqrt (hav (\<phi>2 - \<phi>1) + cos \<phi>1 cos \<phi>2 hav (\<lambda>2 - \<lambda>1)))\<close> with
  \<open>hav \<theta> = sin\<^sup>2 (\<theta> / 2)\<close>, for latitudes and longitudes in degrees.
\<close>

definition hav :: "real \<Rightarrow> real" where
  "hav \<theta> = (sin (\<theta> / 2))\<^sup>2"

definition haversineKm :: "real \<Rightarrow> real \<Rightarrow> real \<Rightarrow> real \<Rightarrow> real" where
  "haversineKm lat1 lon1 lat2 lon2 =
     2 * 6371 *
     arcsin (sqrt (hav (lat2 * pi / 180 - lat1 * pi / 180) +
                   cos (lat1 * pi / 180) * cos (lat2 * pi / 180) *
                   hav (lon2 * pi / 180 - lon1 * pi / 180)))"

text \<open>The value of the variable \<open>area\<close> of \<open>calculateArea\<close> after its loop.\<close>

definition shoelaceSum :: "point list \<Rightarrow> real" where
  "shoelaceSum g = foldl (shoelaceStep g) 0 [0..<length g]"

text \<open>A closed ring started \<open>m\<close> points later: the closing point is dropped, the open
  ring is rotated, and its new first point is repeated at the end.\<close>

definition rotateRing :: "nat \<Rightarrow> point list \<Rightarrow> point list" where
  "rotateRing m ring = (let r = rotate m (butlast ring) in r @ [hd r])"

text \<open>The points of the chain grown from a seed, and the number of segments it used
  (\<open>used.size\<close> when the \<open>while\<close> loop ends).\<close>

definition chainOf :: "way list \<Rightarrow> way \<Rightarrow> point list" where
  "chainOf waySegments seed = fst (chainFrom waySegments seed)"

definition usedCount :: "way list \<Rightarrow> way \<Rightarrow> nat" where
  "usedCount waySegments seed = length (fst (snd (chainFrom waySegments seed)))"

definition chainEnd :: "way list \<Rightarrow> way \<Rightarrow> point option" where
  "chainEnd waySegments seed = snd (snd (chainFrom waySegments seed))"

text \<open>What \<open>chainWays\<close> returns for a seed whose chain used every segment.\<close>

definition closeComplete :: "way list \<Rightarrow> way \<Rightarrow> point list" where
  "closeComplete waySegments seed =
     (if coordsMatch (chainEnd waySegments seed) (firstOf (chainOf waySegments seed))
      then chainOf waySegments seed
      else closePolygon (chainOf waySegments seed))"

text \<open>
  Following the spec's words, for comparison with the code: a complete chain is closed
  by appending its starting point when its final endpoint does not coincide with it.
\<close>

definition closeAsStated :: "point list \<Rightarrow> point option \<Rightarrow> point list" where
  "closeAsStated chain final =
     (if coordsMatch final (firstOf chain) then chain else chain @ [hd chain])"

text \<open>
  Following the spec's words, for comparison with the code: the best chain, with
  consecutive coinciding points removed and force-closed, is returned only if it has at
  least 3 distinct points.
\<close>

definition bestEffortAsStated :: "point list \<Rightarrow> point list option" where
  "bestEffortAsStated chain =
     (let cleaned = removeConsecutive chain;
          closed = (if cleaned \<noteq> [] \<and> \<not> coordsMatch (Some (hd cleaned)) (Some (last cleaned))
                    then cleaned @ [hd cleaned] else cleaned)
      in if 3 \<le> card (set closed) then Some closed else None)"

section \<open>Example inputs\<close>

text \<open>Segments of a boundary; \<open>startNode\<close> and \<open>endNode\<close> are the first and the last
  of the coordinates, as the callers of \<open>chainWays\<close> set them.\<close>

definition segment :: "int \<Rightarrow> point list \<Rightarrow> way" where
  "segment i cs = \<lparr>way_id = i, coords = cs, startNode = firstOf cs, endNode = lastOf cs\<rparr>"

text \<open>Two segments that chain into one line, from the second one on, whose last two
  points are 0.00005 degrees apart.\<close>

definition openLine :: "way list" where
  "openLine =
     [segment 2 [\<lparr>lat = 0, lon = 1\<rparr>, \<lparr>lat = 1, lon = 1\<rparr>, \<lparr>lat = 1, lon = 1.00005\<rparr>],
      segment 1 [\<lparr>lat = 0, lon = 0\<rparr>, \<lparr>lat = 0, lon = 1\<rparr>]]"

text \<open>Two segments that chain into one line, from the second one on: it ends 0.00016
  degrees from its start, and its last two points are 0.00008 degrees apart.\<close>

definition nearlyClosed :: "way list" where
  "nearlyClosed =
     [segment 2 [\<lparr>lat = 0, lon = 1\<rparr>, \<lparr>lat = 0.00008, lon = 0\<rparr>, \<lparr>lat = 0.00016, lon = 0\<rparr>],
      segment 1 [\<lparr>lat = 0, lon = 0\<rparr>, \<lparr>lat = 0, lon = 1\<rparr>]]"

text \<open>Two segments that do not touch; the first has two points 0.00005 degrees
  apart.\<close>

definition apartSegments :: "way list" where
  "apartSegments =
     [segment 1 [\<lparr>lat = 0, lon = 0\<rparr>, \<lparr>lat = 0, lon = 1\<rparr>, \<lparr>lat = 0, lon = 1.00005\<rparr>],
      segment 2 [\<lparr>lat = 5, lon = 5\<rparr>, \<lparr>lat = 5, lon = 6\<rparr>]]"

text \<open>A segment far away, and three of the four sides of a square.\<close>

definition threeSides :: "way list" where
  "threeSides =
     [segment 3 [\<lparr>lat = 5, lon = 5\<rparr>, \<lparr>lat = 5, lon = 6\<rparr>],
      segment 1 [\<lparr>lat = 0, lon = 0\<rparr>, \<lparr>lat = 0, lon = 1\<rparr>],
      segment 2 [\<lparr>lat = 0, lon = 1\<rparr>, \<lparr>lat = 1, lon = 1\<rparr>],
      segment 4 [\<lparr>lat = 1, lon = 1\<rparr>, \<lparr>lat = 1, lon = 0\<rparr>]]"

text \<open>The closed ring of a square of one degree.\<close>

definition unitSquare :: "point list" where
  "unitSquare = [\<lparr>lat = 0, lon = 0\<rparr>, \<lparr>lat = 1, lon = 0\<rparr>, \<lparr>lat = 1, lon = 1\<rparr>,
                 \<lparr>lat = 0, lon = 1\<rparr>, \<lparr>lat = 0, lon = 0\<rparr>]"

text \<open>A business at the center of the cell of row 0 and column 0.\<close>

definition cafe :: business where
  "cafe = \<lparr>lat = 45.43362, lon = -122.83485, business_id = 1, name = ''cafe'',
           category = Some ''cafe''\<rparr>"

text \<open>Two businesses on the meridian of that center: 0.001 and 0.005 degrees of
  latitude north of it (about 0.11 km and 0.56 km).\<close>

definition nearCafe :: business where
  "nearCafe = \<lparr>lat = 45.43462, lon = -122.83485, business_id = 2, name = ''near'',
               category = Some ''cafe''\<rparr>"

definition farCafe :: business where
  "farCafe = \<lparr>lat = 45.43862, lon = -122.83485, business_id = 3, name = ''far'',
              category = None\<rparr>"

text \<open>The globals before the first load, with one business.\<close>

definition appStart :: app_state where
  "appStart = \<lparr>st_gridCells = [], st_allBusinesses = [cafe]\<rparr>"

section \<open>Theorems\<close>

text \<open>
  C10. For every input ring whatsoever (missing, empty, degenerate, open or closed)
  \<open>calculateArea\<close> returns at least 0.01, so the returned area is never zero.
\<close>

theorem calculateArea_floor:
  "0.01 \<le> calculateArea geom \<and> calculateArea geom \<noteq> 0"
proof -
  have "\<exists>x. calculateArea geom = max x 0.01"
  proof (cases geom)
    case None
    then have "calculateArea geom = max 0.01 0.01"
      by (simp add: calculateArea_def)
    then show ?thesis ..
  next
    case (Some g)
    show ?thesis
    proof (cases "length g < 3")
      case True
      with Some have "calculateArea geom = max 0.01 0.01"
        by (simp add: calculateArea_def)
      then show ?thesis ..
    next
      case False
      with Some show ?thesis
        unfolding calculateArea_def Let_def by (intro exI) simp
    qed
  qed
  then obtain x where "calculateArea geom = max x 0.01" ..
  then have "0.01 \<le> calculateArea geom"
    by (simp only: max.cobounded2)
  then show ?thesis by auto
qed

subsection \<open>Grid builder\<close>

lemma latCells_eq: "latCells = 31"
  by (simp add: latCells_def PORTLAND_BBOX_def GRID_LAT_STEP_def)

lemma lonCells_eq: "lonCells = 36"
  by (simp add: lonCells_def PORTLAND_BBOX_def GRID_LON_STEP_def)

lemma length_concat_grid:
  "length (concat (map (\<lambda>i. map (f i) [0..<m]) [0..<n])) = n * m"
  by (induction n) simp_all

lemma nth_concat_grid:
  "r < n \<Longrightarrow> c < m \<Longrightarrow> concat (map (\<lambda>i. map (f i) [0..<m]) [0..<n]) ! (r * m + c) = f r c"
proof (induction n)
  case 0
  then show ?case by simp
next
  case (Suc n)
  show ?case
  proof (cases "r < n")
    case True
    then have "Suc r \<le> n" by simp
    then have "Suc r * m \<le> n * m" by (rule mult_le_mono1)
    with \<open>c < m\<close> have lt: "r * m + c < n * m" by simp
    with True Suc show ?thesis
      by (simp add: nth_append length_concat_grid)
  next
    case False
    with Suc.prems have "r = n" by simp
    with \<open>c < m\<close> show ?thesis
      by (simp add: nth_append length_concat_grid)
  qed
qed

lemma set_concat_grid:
  "set (concat (map (\<lambda>i. map (f i) [0..<m]) [0..<n])) = {f i j | i j. i < n \<and> j < m}"
  by fastforce

lemma cellAt_gridCell:
  "r < latCells \<Longrightarrow> c < lonCells \<Longrightarrow> cellAt r c = gridCell lonCells r c"
  by (simp add: cellAt_def generateGridCells_def nth_concat_grid)

lemma set_generateGridCells:
  "set generateGridCells = {gridCell lonCells i j | i j. i < latCells \<and> j < lonCells}"
  unfolding generateGridCells_def by (rule set_concat_grid)

lemma bounds_gridCell:
  "bounds (gridCell n i j) =
     \<lparr>minLat = south PORTLAND_BBOX + real i * GRID_LAT_STEP,
      maxLat = south PORTLAND_BBOX + real i * GRID_LAT_STEP + GRID_LAT_STEP,
      minLon = west PORTLAND_BBOX + real j * GRID_LON_STEP,
      maxLon = west PORTLAND_BBOX + real j * GRID_LON_STEP + GRID_LON_STEP\<rparr>"
  by (simp add: gridCell_def Let_def)

text \<open>
  C5. \<open>generateGridCells\<close> returns \<open>ceil(latRange / latStep) * ceil(lonRange / lonStep)\<close>
  cells in row-major order. The cell of row \<open>r\<close> and column \<open>c\<close> has id
  \<open>r * lonCells + c\<close>, a ring of five points through the four corners of its bounds
  whose last point is its first, south and west edges at the origin of the region plus
  \<open>r\<close> and \<open>c\<close> whole steps, and the midpoint of its bounds as center.
\<close>

theorem generateGridCells_layout:
  "length generateGridCells =
     nat \<lceil>(north PORTLAND_BBOX - south PORTLAND_BBOX) / GRID_LAT_STEP\<rceil> *
     nat \<lceil>(east PORTLAND_BBOX - west PORTLAND_BBOX) / GRID_LON_STEP\<rceil> \<and>
   (\<forall>r<latCells. \<forall>c<lonCells.
      cell_id (cellAt r c) = r * lonCells + c \<and>
      row (cellAt r c) = r \<and> col (cellAt r c) = c \<and>
      length (geometry (cellAt r c)) = 5 \<and>
      hd (geometry (cellAt r c)) = last (geometry (cellAt r c)) \<and>
      geometry (cellAt r c) =
        [\<lparr>lat = minLat (bounds (cellAt r c)), lon = minLon (bounds (cellAt r c))\<rparr>,
         \<lparr>lat = maxLat (bounds (cellAt r c)), lon = minLon (bounds (cellAt r c))\<rparr>,
         \<lparr>lat = maxLat (bounds (cellAt r c)), lon = maxLon (bounds (cellAt r c))\<rparr>,
         \<lparr>lat = minLat (bounds (cellAt r c)), lon = maxLon (bounds (cellAt r c))\<rparr>,
         \<lparr>lat = minLat (bounds (cellAt r c)), lon = minLon (bounds (cellAt r c))\<rparr>] \<and>
      minLat (bounds (cellAt r c)) = south PORTLAND_BBOX + real r * GRID_LAT_STEP \<and>
      minLon (bounds (cellAt r c)) = west PORTLAND_BBOX + real c * GRID_LON_STEP \<and>
      maxLat (bounds (cellAt r c)) = minLat (bounds (cellAt r c)) + GRID_LAT_STEP \<and>
      maxLon (bounds (cellAt r c)) = minLon (bounds (cellAt r c)) + GRID_LON_STEP \<and>
      centerLat (cellAt r c) =
        (minLat (bounds (cellAt r c)) + maxLat (bounds (cellAt r c))) / 2 \<and>
      centerLon (cellAt r c) =
        (minLon (bounds (cellAt r c)) + maxLon (bounds (cellAt r c))) / 2)"
proof -
  have len: "length generateGridCells = latCells * lonCells"
    by (simp add: generateGridCells_def length_concat_grid)
  have cells: "\<forall>r<latCells. \<forall>c<lonCells. cellAt r c = gridCell lonCells r c"
    by (simp add: cellAt_gridCell)
  show ?thesis
    using len cells
    by (simp add: latCells_def lonCells_def gridCell_def Let_def)
qed

theorem generateGridCells_layout_witness:
  "(2::nat) < latCells \<and> (3::nat) < lonCells \<and>
   length generateGridCells = 1116 \<and>
   cell_id (cellAt 2 3) = 75 \<and> row (cellAt 2 3) = 2 \<and> col (cellAt 2 3) = 3 \<and>
   minLat (bounds (cellAt 2 3)) = 45.44448 \<and> minLon (bounds (cellAt 2 3)) = -122.8091 \<and>
   centerLat (cellAt 2 3) = 45.4481"
proof -
  have r: "(2::nat) < latCells" and c: "(3::nat) < lonCells"
    by (simp_all add: latCells_eq lonCells_eq)
  from generateGridCells_layout r c
  have "cell_id (cellAt 2 3) = 2 * lonCells + 3 \<and> row (cellAt 2 3) = 2 \<and> col (cellAt 2 3) = 3 \<and>
        minLat (bounds (cellAt 2 3)) = south PORTLAND_BBOX + real 2 * GRID_LAT_STEP \<and>
        minLon (bounds (cellAt 2 3)) = west PORTLAND_BBOX + real 3 * GRID_LON_STEP \<and>
        maxLat (bounds (cellAt 2 3)) = minLat (bounds (cellAt 2 3)) + GRID_LAT_STEP \<and>
        centerLat (cellAt 2 3) =
          (minLat (bounds (cellAt 2 3)) + maxLat (bounds (cellAt 2 3))) / 2"
    by blast
  moreover from generateGridCells_layout
  have "length generateGridCells = latCells * lonCells"
    by (simp add: latCells_def lonCells_def)
  ultimately show ?thesis
    using r c
    by (simp add: latCells_eq lonCells_eq PORTLAND_BBOX_def GRID_LAT_STEP_def GRID_LON_STEP_def)
qed









subsection \<open>Bounding box\<close>

lemma foldl_js_min_Fin: "foldl js_min (Fin a) xs = Fin (fold min xs a)"
  by (induction xs arbitrary: a) (simp_all add: min.commute)

lemma foldl_js_max_Fin: "foldl js_max (Fin a) xs = Fin (fold max xs a)"
  by (induction xs arbitrary: a) (simp_all add: max.commute)

lemma foldl_boundsStep:
  "\<forall>p\<in>set g. lat p \<noteq> 0 \<and> lon p \<noteq> 0 \<Longrightarrow>
   foldl boundsStep acc g =
     \<lparr>minLat = foldl js_min (minLat acc) (map lat g),
      maxLat = foldl js_max (maxLat acc) (map lat g),
      minLon = foldl js_min (minLon acc) (map lon g),
      maxLon = foldl js_max (maxLon acc) (map lon g)\<rparr>"
  by (induction g arbitrary: acc) (simp_all add: boundsStep_def)

lemma calculateBounds_empty:
  "calculateBounds None = None \<and> calculateBounds (Some []) = None"
  by (simp add: calculateBounds_def)

lemma calculateBounds_nonzero:
  assumes "g \<noteq> []" and "\<forall>p\<in>set g. lat p \<noteq> 0 \<and> lon p \<noteq> 0"
  shows "calculateBounds (Some g) =
     Some \<lparr>minLat = Fin (Min (lat ` set g)), maxLat = Fin (Max (lat ` set g)),
           minLon = Fin (Min (lon ` set g)), maxLon = Fin (Max (lon ` set g))\<rparr>"
proof -
  from assms(1) obtain p ps where g: "g = p # ps" by (cases g) auto
  have "Min (lat ` set g) = fold min (map lat ps) (lat p)"
    "Max (lat ` set g) = fold max (map lat ps) (lat p)"
    "Min (lon ` set g) = fold min (map lon ps) (lon p)"
    "Max (lon ` set g) = fold max (map lon ps) (lon p)"
    using Min.set_eq_fold [of "lat p" "map lat ps"] Max.set_eq_fold [of "lat p" "map lat ps"]
      Min.set_eq_fold [of "lon p" "map lon ps"] Max.set_eq_fold [of "lon p" "map lon ps"]
    by (simp_all add: g)
  moreover have "calculateBounds (Some g) =
      Some (foldl boundsStep
        \<lparr>minLat = PosInf, maxLat = NegInf, minLon = PosInf, maxLon = NegInf\<rparr> g)"
    using assms(1) by (simp add: calculateBounds_def)
  ultimately show ?thesis
    by (simp add: foldl_boundsStep [OF assms(2)])
       (simp add: g foldl_js_min_Fin foldl_js_max_Fin)
qed

text \<open>
  C7, as the code has it. \<open>calculateBounds\<close> returns \<open>null\<close> for a missing or an
  empty sequence of points, and for a non-empty sequence of points whose latitudes and
  longitudes are all different from \<open>0\<close> it returns the componentwise minimum and
  maximum.
\<close>

theorem calculateBounds_componentwise:
  "calculateBounds None = None \<and> calculateBounds (Some []) = None \<and>
   (g \<noteq> [] \<and> (\<forall>p\<in>set g. lat p \<noteq> 0 \<and> lon p \<noteq> 0) \<longrightarrow>
      calculateBounds (Some g) =
        Some \<lparr>minLat = Fin (Min (lat ` set g)), maxLat = Fin (Max (lat ` set g)),
              minLon = Fin (Min (lon ` set g)), maxLon = Fin (Max (lon ` set g))\<rparr>)"
  using calculateBounds_empty calculateBounds_nonzero by blast

theorem calculateBounds_componentwise_witness:
  "calculateBounds (Some [\<lparr>lat = 45.5, lon = -122.6\<rparr>, \<lparr>lat = 45.6, lon = -122.7\<rparr>]) =
     Some \<lparr>minLat = Fin 45.5, maxLat = Fin 45.6, minLon = Fin (-122.7), maxLon = Fin (-122.6)\<rparr>"
proof -
  let ?g = "[\<lparr>lat = 45.5, lon = -122.6\<rparr>, \<lparr>lat = 45.6, lon = -122.7 :: real\<rparr>]"
  have "?g \<noteq> [] \<and> (\<forall>p\<in>set ?g. lat p \<noteq> 0 \<and> lon p \<noteq> 0)" by simp
  with calculateBounds_componentwise [of ?g]
  have "calculateBounds (Some ?g) =
        Some \<lparr>minLat = Fin (Min (lat ` set ?g)), maxLat = Fin (Max (lat ` set ?g)),
              minLon = Fin (Min (lon ` set ?g)), maxLon = Fin (Max (lon ` set ?g))\<rparr>"
    by blast
  then show ?thesis by simp
qed

text \<open>
  C7, as stated, fails on the two points \<open>(0, -122.5)\<close> and \<open>(45.5, -122.6)\<close>: the
  guard \<open>point.lat && point.lon\<close> skips the first one, and the result is the box of the
  second point alone, although the least latitude is \<open>0\<close> and the greatest longitude
  is \<open>-122.5\<close>.
\<close>

theorem calculateBounds_skips_zero:
  "calculateBounds (Some [\<lparr>lat = 0, lon = -122.5\<rparr>, \<lparr>lat = 45.5, lon = -122.6\<rparr>]) =
     Some \<lparr>minLat = Fin 45.5, maxLat = Fin 45.5, minLon = Fin (-122.6), maxLon = Fin (-122.6)\<rparr> \<and>
   Min (lat ` set [\<lparr>lat = 0, lon = -122.5\<rparr>, \<lparr>lat = 45.5, lon = -122.6\<rparr>]) = 0 \<and>
   Max (lon ` set [\<lparr>lat = 0, lon = -122.5\<rparr>, \<lparr>lat = 45.5, lon = -122.6\<rparr>]) = -122.5 \<and>
   calculateBounds (Some [\<lparr>lat = 0, lon = -122.5\<rparr>, \<lparr>lat = 45.5, lon = -122.6\<rparr>]) \<noteq>
     Some \<lparr>minLat = Fin (Min (lat ` set [\<lparr>lat = 0, lon = -122.5\<rparr>, \<lparr>lat = 45.5, lon = -122.6\<rparr>])),
           maxLat = Fin (Max (lat ` set [\<lparr>lat = 0, lon = -122.5\<rparr>, \<lparr>lat = 45.5, lon = -122.6\<rparr>])),
           minLon = Fin (Min (lon ` set [\<lparr>lat = 0, lon = -122.5\<rparr>, \<lparr>lat = 45.5, lon = -122.6\<rparr>])),
           maxLon = Fin (Max (lon ` set [\<lparr>lat = 0, lon = -122.5\<rparr>, \<lparr>lat = 45.5, lon = -122.6\<rparr>]))\<rparr>"
  by (simp add: calculateBounds_def boundsStep_def)

subsection \<open>Sorting\<close>

lemma mset_insertBy: "mset (insertBy cmp x ys) = add_mset x (mset ys)"
  by (induction ys) simp_all

lemma mset_js_sort: "mset (js_sort cmp xs) = mset xs"
  by (induction xs) (simp_all add: js_sort_def mset_insertBy)

lemma set_insertBy: "set (insertBy cmp x ys) = insert x (set ys)"
  by (induction ys) auto

lemma set_js_sort: "set (js_sort cmp xs) = set xs"
  by (induction xs) (simp_all add: js_sort_def set_insertBy)

lemma length_js_sort: "length (js_sort cmp xs) = length xs"
  using mset_js_sort [of cmp xs] by (metis size_mset)

lemma sorted_insertBy:
  fixes f :: "'a \<Rightarrow> real"
  assumes "sorted_wrt (\<lambda>a b. f b \<le> f a) ys"
  shows "sorted_wrt (\<lambda>a b. f b \<le> f a) (insertBy (\<lambda>a b. f b - f a) x ys)"
  using assms by (induction ys) (auto simp: set_insertBy)

lemma sorted_js_sort:
  fixes f :: "'a \<Rightarrow> real"
  shows "sorted_wrt (\<lambda>a b. f b \<le> f a) (js_sort (\<lambda>a b. f b - f a) xs)"
  by (induction xs) (simp_all add: js_sort_def sorted_insertBy)

lemma filter_insertBy:
  fixes f :: "'a \<Rightarrow> real"
  shows "filter (\<lambda>c. f c = k) (insertBy (\<lambda>a b. f b - f a) x ys) =
         filter (\<lambda>c. f c = k) (x # ys)"
  by (induction ys) auto

lemma filter_js_sort:
  fixes f :: "'a \<Rightarrow> real"
  shows "filter (\<lambda>c. f c = k) (js_sort (\<lambda>a b. f b - f a) xs) = filter (\<lambda>c. f c = k) xs"
proof (induction xs)
  case Nil
  then show ?case by (simp add: js_sort_def)
next
  case (Cons x xs)
  have "js_sort (\<lambda>a b. f b - f a) (x # xs) =
        insertBy (\<lambda>a b. f b - f a) x (js_sort (\<lambda>a b. f b - f a) xs)"
    by (simp add: js_sort_def)
  with Cons show ?case by (simp add: filter_insertBy)
qed

text \<open>
  C8. After scoring, \<open>gridCells\<close> is sorted by descending \<open>proximityScore\<close>: the result
  is a permutation of the scored cells, the score of a cell is at least the score of
  every later cell, and the cells of any one score keep their relative order.
\<close>

theorem calculateProximityScores_sorted:
  "mset (calculateProximityScores allBusinesses gridCells) =
     mset (map (scoreCell allBusinesses) gridCells) \<and>
   sorted_wrt (\<lambda>a b. proximityScore b \<le> proximityScore a)
     (calculateProximityScores allBusinesses gridCells) \<and>
   filter (\<lambda>c. proximityScore c = k) (calculateProximityScores allBusinesses gridCells) =
     filter (\<lambda>c. proximityScore c = k) (map (scoreCell allBusinesses) gridCells)"
  unfolding calculateProximityScores_def
  by (intro conjI mset_js_sort sorted_js_sort filter_js_sort)

subsection \<open>Distance\<close>

lemma sin_half_squared:
  fixes x :: real
  shows "sin (x / 2) * sin (x / 2) = (1 - cos x) / 2"
  using cos_double_sin [of "x / 2"] by (simp add: power2_eq_square)

lemma sin_times_sin_le_one:
  fixes z :: real
  shows "sin z * sin z \<le> 1"
proof -
  have "(sin z)\<^sup>2 \<le> 1"
    by (simp add: abs_square_le_1)
  then show ?thesis by (simp add: power2_eq_square)
qed

lemma haversine_core:
  fixes t x y :: real
  assumes "0 \<le> t" "t \<le> 1"
  shows "0 \<le> sin ((y - x) / 2) * sin ((y - x) / 2) + cos x * cos y * t"
    and "sin ((y - x) / 2) * sin ((y - x) / 2) + cos x * cos y * t \<le> 1"
proof -
  let ?s = "sin ((y - x) / 2) * sin ((y - x) / 2)"
  have "?s = (1 - cos (y - x)) / 2"
    by (rule sin_half_squared)
  then have s: "?s = (1 - cos x * cos y - sin x * sin y) / 2"
    by (simp only: cos_diff) (simp add: algebra_simps)
  have s0: "0 \<le> ?s" by simp
  have s1: "?s \<le> 1" by (rule sin_times_sin_le_one)
  define c where "c = cos (x + y)"
  have full: "?s + cos x * cos y = (1 + c) / 2"
    unfolding c_def by (simp only: s cos_add) (simp add: field_simps)
  have c: "- 1 \<le> c" "c \<le> 1" by (simp_all add: c_def)
  have f0: "0 \<le> ?s + cos x * cos y"
    unfolding full using c by simp
  have f1: "?s + cos x * cos y \<le> 1"
    unfolding full using c by simp
  show "0 \<le> ?s + cos x * cos y * t"
  proof (cases "0 \<le> cos x * cos y")
    case True
    with assms have "0 \<le> cos x * cos y * t" by simp
    with s0 show ?thesis by linarith
  next
    case False
    then have "cos x * cos y * 1 \<le> cos x * cos y * t"
      using assms by (intro mult_left_mono_neg) simp_all
    with f0 show ?thesis by simp
  qed
  show "?s + cos x * cos y * t \<le> 1"
  proof (cases "0 \<le> cos x * cos y")
    case True
    then have "cos x * cos y * t \<le> cos x * cos y * 1"
      using assms by (intro mult_left_mono) simp_all
    with f1 show ?thesis by simp
  next
    case False
    then have "cos x * cos y \<le> 0" by simp
    from this assms(1) have "cos x * cos y * t \<le> 0"
      by (rule mult_nonpos_nonneg)
    with s1 show ?thesis by linarith
  qed
qed

lemma haversine_a_range:
  "0 \<le> haversine_a lat1 lon1 lat2 lon2 \<and> haversine_a lat1 lon1 lat2 lon2 \<le> 1"
proof -
  let ?t = "sin ((lon2 - lon1) * pi / 180 / 2) * sin ((lon2 - lon1) * pi / 180 / 2)"
  have t0: "0 \<le> ?t" by simp
  have t1: "?t \<le> 1" by (rule sin_times_sin_le_one)
  have eq: "haversine_a lat1 lon1 lat2 lon2 =
      sin ((lat2 * pi / 180 - lat1 * pi / 180) / 2) * sin ((lat2 * pi / 180 - lat1 * pi / 180) / 2) +
      cos (lat1 * pi / 180) * cos (lat2 * pi / 180) * ?t"
    by (simp add: haversine_a_def Let_def algebra_simps diff_divide_distrib)
  show ?thesis
    unfolding eq using haversine_core [OF t0 t1] by blast
qed

lemma atan2_nonneg: "0 \<le> y \<Longrightarrow> 0 \<le> x \<Longrightarrow> 0 \<le> atan2 y x"
  by (auto simp: atan2_def)

lemma calculateDistance_nonneg: "0 \<le> calculateDistance lat1 lon1 lat2 lon2"
proof -
  have "0 \<le> atan2 (sqrt (haversine_a lat1 lon1 lat2 lon2))
                  (sqrt (1 - haversine_a lat1 lon1 lat2 lon2))"
    using haversine_a_range [of lat1 lon1 lat2 lon2] by (intro atan2_nonneg) simp_all
  then show ?thesis by (simp add: calculateDistance_def Let_def)
qed

lemma calculateDistance_same: "calculateDistance la lo la lo = 0"
  by (simp add: calculateDistance_def haversine_a_def atan2_def)

lemma atan2_arcsin:
  assumes "0 \<le> a" and "a \<le> 1"
  shows "atan2 (sqrt a) (sqrt (1 - a)) = arcsin (sqrt a)"
proof (cases "a = 1")
  case True
  then show ?thesis by (simp add: atan2_def)
next
  case False
  with assms have lt: "a < 1" by simp
  let ?s = "sqrt a"
  let ?c = "sqrt (1 - a)"
  from assms lt have s: "0 \<le> ?s" "?s < 1" by simp_all
  from lt have c: "0 < ?c" by simp
  from s have "- 1 < ?s" by linarith
  from arcsin_lt_bounded [OF this s(2)]
  have bounds: "- (pi / 2) < arcsin ?s" "arcsin ?s < pi / 2"
    by blast+
  from s have range: "- 1 \<le> ?s" "?s \<le> 1" by linarith+
  then have "cos (arcsin ?s) = sqrt (1 - ?s\<^sup>2)"
    by (rule cos_arcsin)
  with assms have cosv: "cos (arcsin ?s) = ?c" by simp
  have sinv: "sin (arcsin ?s) = ?s" using range by (rule sin_arcsin)
  have "tan (arcsin ?s) = ?s / ?c"
    by (simp add: tan_def sinv cosv)
  then have "arctan (?s / ?c) = arcsin ?s"
    using arctan_tan [OF bounds] by simp
  with c show ?thesis by (simp add: atan2_def)
qed

lemma haversine_a_hav:
  "haversine_a lat1 lon1 lat2 lon2 =
     hav (lat2 * pi / 180 - lat1 * pi / 180) +
     cos (lat1 * pi / 180) * cos (lat2 * pi / 180) * hav (lon2 * pi / 180 - lon1 * pi / 180)"
  by (simp add: haversine_a_def hav_def Let_def power2_eq_square algebra_simps
      diff_divide_distrib)

lemma calculateDistance_haversine:
  "calculateDistance lat1 lon1 lat2 lon2 = haversineKm lat1 lon1 lat2 lon2"
proof -
  have "atan2 (sqrt (haversine_a lat1 lon1 lat2 lon2)) (sqrt (1 - haversine_a lat1 lon1 lat2 lon2)) =
        arcsin (sqrt (haversine_a lat1 lon1 lat2 lon2))"
    using haversine_a_range [of lat1 lon1 lat2 lon2] by (intro atan2_arcsin) simp_all
  then show ?thesis
    by (simp add: calculateDistance_def haversineKm_def Let_def haversine_a_hav)
qed

lemma hav_minus: "hav (- x) = hav x"
  by (simp add: hav_def)

lemma haversineKm_symmetric:
  "haversineKm lat1 lon1 lat2 lon2 = haversineKm lat2 lon2 lat1 lon1"
proof -
  have "hav (lat2 * pi / 180 - lat1 * pi / 180) = hav (lat1 * pi / 180 - lat2 * pi / 180)"
    using hav_minus [of "lat1 * pi / 180 - lat2 * pi / 180"] by simp
  moreover have "hav (lon2 * pi / 180 - lon1 * pi / 180) = hav (lon1 * pi / 180 - lon2 * pi / 180)"
    using hav_minus [of "lon1 * pi / 180 - lon2 * pi / 180"] by simp
  ultimately show ?thesis by (simp add: haversineKm_def mult.commute)
qed

lemma arcsin_abs_sin:
  assumes "\<bar>x\<bar> \<le> pi / 2"
  shows "arcsin \<bar>sin x\<bar> = \<bar>x\<bar>"
proof (cases "0 \<le> x")
  case True
  with assms have "x \<le> pi / 2" by simp
  with True have "0 \<le> sin x" by (intro sin_ge_zero) (use pi_ge_two in linarith)+
  with True \<open>x \<le> pi / 2\<close> show ?thesis by (simp add: arcsin_sin)
next
  case False
  with assms have x: "- (pi / 2) \<le> x" "x < 0" by simp_all
  then have "0 \<le> sin (- x)" by (intro sin_ge_zero) (use pi_ge_two in linarith)+
  then have "\<bar>sin x\<bar> = sin (- x)" by simp
  moreover have "arcsin (sin (- x)) = - x"
    using x by (intro arcsin_sin) simp_all
  ultimately show ?thesis using x by simp
qed

lemma haversineKm_meridian:
  assumes "\<bar>lat2 - lat1\<bar> \<le> 180"
  shows "haversineKm lat1 lo lat2 lo = 6371 * (\<bar>lat2 - lat1\<bar> * pi / 180)"
proof -
  define x where "x = (lat2 * pi / 180 - lat1 * pi / 180) / 2"
  have xeq: "x = (lat2 - lat1) * pi / 360" by (simp add: x_def field_simps)
  have absx: "\<bar>x\<bar> = \<bar>lat2 - lat1\<bar> * pi / 360"
    unfolding xeq by (simp add: abs_mult)
  have "\<bar>lat2 - lat1\<bar> * pi \<le> 180 * pi"
    using assms by (intro mult_right_mono) simp_all
  then have "\<bar>lat2 - lat1\<bar> * pi / 360 \<le> 180 * pi / 360"
    by (rule divide_right_mono) simp
  then have small: "\<bar>x\<bar> \<le> pi / 2"
    unfolding absx by simp
  have "haversineKm lat1 lo lat2 lo = 2 * 6371 * arcsin (sqrt ((sin x)\<^sup>2))"
    by (simp add: haversineKm_def hav_def x_def)
  also have "\<dots> = 2 * 6371 * arcsin \<bar>sin x\<bar>" by simp
  also have "\<dots> = 2 * 6371 * \<bar>x\<bar>" by (simp only: arcsin_abs_sin [OF small])
  also have "\<dots> = 6371 * (\<bar>lat2 - lat1\<bar> * pi / 180)" unfolding absx by simp
  finally show ?thesis .
qed


lemma hav_cos: "hav x = (1 - cos x) / 2"
  using sin_half_squared [of x] by (simp add: hav_def power2_eq_square)

lemma haversineKm_central_angle:
  "haversineKm lat1 lon1 lat2 lon2 =
     6371 * arccos (sin (lat1 * pi / 180) * sin (lat2 * pi / 180) +
                    cos (lat1 * pi / 180) * cos (lat2 * pi / 180) *
                    cos (lon2 * pi / 180 - lon1 * pi / 180))"
proof -
  define p1 p2 dl where "p1 = lat1 * pi / 180" and "p2 = lat2 * pi / 180"
    and "dl = lon2 * pi / 180 - lon1 * pi / 180"
  define c where "c = sin p1 * sin p2 + cos p1 * cos p2 * cos dl"
  define a where "a = hav (p2 - p1) + cos p1 * cos p2 * hav dl"
  have t: "0 \<le> hav dl" "hav dl \<le> 1"
    using sin_times_sin_le_one [of "dl / 2"] by (simp_all add: hav_def power2_eq_square)
  have "a = sin ((p2 - p1) / 2) * sin ((p2 - p1) / 2) + cos p1 * cos p2 * hav dl"
    by (simp add: a_def hav_def power2_eq_square)
  with haversine_core [OF t, of p2 p1] have a01: "0 \<le> a" "a \<le> 1" by simp_all
  have ac: "a = (1 - c) / 2"
    unfolding a_def c_def hav_cos cos_diff by (simp add: field_simps)
  with a01 have c11: "- 1 \<le> c" "c \<le> 1" by simp_all
  define th where "th = arccos c"
  have th: "0 \<le> th" "th \<le> pi" "cos th = c"
    using c11 by (simp_all add: th_def arccos_lbound arccos_ubound)
  have "a = (sin (th / 2))\<^sup>2"
    using sin_half_squared [of th] by (simp add: ac th power2_eq_square)
  moreover have "0 \<le> sin (th / 2)"
    using th by (intro sin_ge_zero) simp_all
  ultimately have "sqrt a = sin (th / 2)" by simp
  moreover have "arcsin (sin (th / 2)) = th / 2"
    using th by (intro arcsin_sin) simp_all
  ultimately have "2 * 6371 * arcsin (sqrt a) = 6371 * th" by simp
  then show ?thesis
    by (simp add: haversineKm_def a_def c_def th_def p1_def p2_def dl_def)
qed

subsection \<open>Scoring one cell\<close>

lemma foldl_minDistance_Km:
  "foldl (\<lambda>m d. if dist_less d m then Km d else m) (Km a) ds = Km (fold min ds a)"
proof (induction ds arbitrary: a)
  case Nil
  then show ?case by simp
next
  case (Cons d ds)
  have "(if d < a then d else a) = min d a" by (simp add: min_def)
  with Cons show ?case by (simp add: if_distrib [of Km, symmetric])
qed

lemma foldl_minDistance:
  "ds \<noteq> [] \<Longrightarrow>
   foldl (\<lambda>m d. if dist_less d m then Km d else m) Infinity ds = Km (Min (set ds))"
  by (cases ds) (simp_all add: foldl_minDistance_Km Min.set_eq_fold [symmetric])

lemma foldl_visitBusiness_dist:
  "fst (foldl visitBusiness (m, nb, c) bs) =
     foldl (\<lambda>m d. if dist_less d m then Km d else m) m
       (map (\<lambda>b. calculateDistance (centerLat c) (centerLon c) (lat b) (lon b)) bs)"
proof (induction bs arbitrary: m nb c)
  case Nil
  then show ?case by simp
next
  case (Cons b bs)
  obtain m1 nb1 c1 where step: "visitBusiness (m, nb, c) b = (m1, nb1, c1)"
    by (cases "visitBusiness (m, nb, c) b") auto
  then have "centerLat c1 = centerLat c" "centerLon c1 = centerLon c"
    and "m1 = (if dist_less (calculateDistance (centerLat c) (centerLon c) (lat b) (lon b)) m
               then Km (calculateDistance (centerLat c) (centerLon c) (lat b) (lon b)) else m)"
    by (auto simp: visitBusiness_def Let_def split: if_splits)
  with Cons.IH [of m1 nb1 c1] step show ?case by simp
qed

lemma foldl_visitBusiness_cell:
  "snd (snd (foldl visitBusiness (m, nb, c) bs)) =
     c\<lparr>businesses := businesses c @
          filter (\<lambda>b. insideBounds (bounds c) (lat b) (lon b)) bs\<rparr>"
proof (induction bs arbitrary: m nb c)
  case Nil
  then show ?case by simp
next
  case (Cons b bs)
  obtain m1 nb1 c1 where step: "visitBusiness (m, nb, c) b = (m1, nb1, c1)"
    by (cases "visitBusiness (m, nb, c) b") auto
  then have "c1 = c\<lparr>businesses := businesses c @
       (if insideBounds (bounds c) (lat b) (lon b) then [b] else [])\<rparr>"
    by (auto simp: visitBusiness_def Let_def insideBounds_def split: if_splits)
  with Cons.IH [of m1 nb1 c1] step show ?case by simp
qed

lemma scoreCell_fields:
  "centerLat (scoreCell bs c) = centerLat c"
  "centerLon (scoreCell bs c) = centerLon c"
  "bounds (scoreCell bs c) = bounds c"
  "cell_id (scoreCell bs c) = cell_id c"
  "businesses (scoreCell bs c) =
     businesses c @ filter (\<lambda>b. insideBounds (bounds c) (lat b) (lon b)) bs"
  "businessCount (scoreCell bs c) = Some (length (businesses (scoreCell bs c)))"
proof -
  obtain m nb c1 where f: "foldl visitBusiness (Infinity, None, c) bs = (m, nb, c1)"
    by (cases "foldl visitBusiness (Infinity, None, c) bs") auto
  with foldl_visitBusiness_cell [of Infinity None c bs]
  have c1: "c1 = c\<lparr>businesses := businesses c @
       filter (\<lambda>b. insideBounds (bounds c) (lat b) (lon b)) bs\<rparr>"
    by simp
  show "centerLat (scoreCell bs c) = centerLat c"
    "centerLon (scoreCell bs c) = centerLon c"
    "bounds (scoreCell bs c) = bounds c"
    "cell_id (scoreCell bs c) = cell_id c"
    "businesses (scoreCell bs c) =
       businesses c @ filter (\<lambda>b. insideBounds (bounds c) (lat b) (lon b)) bs"
    "businessCount (scoreCell bs c) = Some (length (businesses (scoreCell bs c)))"
    by (simp_all add: scoreCell_def f c1 Let_def split: dist.split)
qed

lemma scoreCell_score:
  "proximityScore (scoreCell bs c) =
     (if bs = [] then 0
      else 100 * exp (- Min ((\<lambda>b. calculateDistance (centerLat c) (centerLon c) (lat b) (lon b))
                               ` set bs) / 0.5))"
proof -
  obtain m nb c1 where f: "foldl visitBusiness (Infinity, None, c) bs = (m, nb, c1)"
    by (cases "foldl visitBusiness (Infinity, None, c) bs") auto
  with foldl_visitBusiness_dist [of Infinity None c bs]
  have m: "m = foldl (\<lambda>m d. if dist_less d m then Km d else m) Infinity
       (map (\<lambda>b. calculateDistance (centerLat c) (centerLon c) (lat b) (lon b)) bs)"
    by simp
  show ?thesis
  proof (cases "bs = []")
    case True
    with m have "m = Infinity" by simp
    with True show ?thesis by (simp add: scoreCell_def f Let_def)
  next
    case False
    with m have "m = Km (Min ((\<lambda>b. calculateDistance (centerLat c) (centerLon c) (lat b) (lon b))
                               ` set bs))"
      by (simp add: foldl_minDistance)
    with False show ?thesis by (simp add: scoreCell_def f Let_def)
  qed
qed

lemma scoreCell_empty: "nearestBusiness (scoreCell [] c) = None"
  by (simp add: scoreCell_def Let_def)

lemma scoreCell_score_range:
  "0 \<le> proximityScore (scoreCell bs c) \<and> proximityScore (scoreCell bs c) \<le> 100"
proof (cases "bs = []")
  case True
  then show ?thesis by (simp add: scoreCell_score)
next
  case False
  let ?D = "(\<lambda>b. calculateDistance (centerLat c) (centerLon c) (lat b) (lon b)) ` set bs"
  from False have "Min ?D \<in> ?D" by (intro Min_in) simp_all
  then have "0 \<le> Min ?D" using calculateDistance_nonneg by auto
  then have "exp (- Min ?D / 0.5) \<le> 1" by simp
  with False show ?thesis by (simp add: scoreCell_score)
qed

lemma set_calculateProximityScores:
  "set (calculateProximityScores bs cells) = scoreCell bs ` set cells"
  by (simp add: calculateProximityScores_def set_js_sort)

lemma calculateProximityScores_single:
  "calculateProximityScores bs [c] = [scoreCell bs c]"
  by (simp add: calculateProximityScores_def js_sort_def)

lemma cellAt_0_0: "cellAt 0 0 = gridCell lonCells 0 0"
  by (rule cellAt_gridCell) (simp_all add: latCells_eq lonCells_eq)

lemma cafe_at_center:
  "lat cafe = centerLat (cellAt 0 0)" "lon cafe = centerLon (cellAt 0 0)"
  by (simp_all add: cafe_def cellAt_0_0 gridCell_def Let_def PORTLAND_BBOX_def
      GRID_LAT_STEP_def GRID_LON_STEP_def)

text \<open>
  C1. For every cell after a scoring pass: when there is a business, \<open>proximityScore\<close>
  is \<open>100 * exp(-d / 0.5)\<close> for the least haversine distance \<open>d\<close> from the center of
  the cell to a business; the score lies between 0 and 100; and without any business the
  score is 0 and \<open>nearestBusiness\<close> is \<open>null\<close>.
\<close>

theorem calculateProximityScores_score:
  "\<forall>c\<in>set (calculateProximityScores allBusinesses gridCells).
     (allBusinesses \<noteq> [] \<longrightarrow>
        proximityScore c =
          100 * exp (- Min ((\<lambda>b. haversineKm (centerLat c) (centerLon c) (lat b) (lon b))
                              ` set allBusinesses) / 0.5)) \<and>
     0 \<le> proximityScore c \<and> proximityScore c \<le> 100 \<and>
     (allBusinesses = [] \<longrightarrow> proximityScore c = 0 \<and> nearestBusiness c = None)"
proof
  fix c
  assume "c \<in> set (calculateProximityScores allBusinesses gridCells)"
  then obtain c0 where c: "c = scoreCell allBusinesses c0"
    unfolding set_calculateProximityScores by blast
  show "(allBusinesses \<noteq> [] \<longrightarrow>
        proximityScore c =
          100 * exp (- Min ((\<lambda>b. haversineKm (centerLat c) (centerLon c) (lat b) (lon b))
                              ` set allBusinesses) / 0.5)) \<and>
     0 \<le> proximityScore c \<and> proximityScore c \<le> 100 \<and>
     (allBusinesses = [] \<longrightarrow> proximityScore c = 0 \<and> nearestBusiness c = None)"
    unfolding c using scoreCell_score_range [of allBusinesses c0]
    by (simp add: scoreCell_fields scoreCell_score scoreCell_empty calculateDistance_haversine)
qed

lemma center_0_0:
  "centerLat (cellAt 0 0) = 45.43362" "centerLon (cellAt 0 0) = -122.83485"
  by (simp_all add: cellAt_0_0 gridCell_def Let_def PORTLAND_BBOX_def
      GRID_LAT_STEP_def GRID_LON_STEP_def)

lemma cafe_distances:
  "haversineKm (centerLat (cellAt 0 0)) (centerLon (cellAt 0 0)) (lat nearCafe) (lon nearCafe) =
     6371 * (pi / 180000)"
  "haversineKm (centerLat (cellAt 0 0)) (centerLon (cellAt 0 0)) (lat farCafe) (lon farCafe) =
     6371 * (pi / 36000)"
proof -
  have "haversineKm 45.43362 (-122.83485) 45.43462 (-122.83485) =
        6371 * (\<bar>45.43462 - 45.43362\<bar> * pi / 180)"
    by (rule haversineKm_meridian) simp
  then show "haversineKm (centerLat (cellAt 0 0)) (centerLon (cellAt 0 0)) (lat nearCafe)
       (lon nearCafe) = 6371 * (pi / 180000)"
    by (simp add: center_0_0 nearCafe_def)
  have "haversineKm 45.43362 (-122.83485) 45.43862 (-122.83485) =
        6371 * (\<bar>45.43862 - 45.43362\<bar> * pi / 180)"
    by (rule haversineKm_meridian) simp
  then show "haversineKm (centerLat (cellAt 0 0)) (centerLon (cellAt 0 0)) (lat farCafe)
       (lon farCafe) = 6371 * (pi / 36000)"
    by (simp add: center_0_0 farCafe_def)
qed

lemma exp_minus_bounds:
  fixes x :: real
  assumes "0 \<le> x"
  shows "1 - x \<le> exp (- x)" and "exp (- x) * (1 + x) \<le> 1"
proof -
  show "1 - x \<le> exp (- x)" using exp_ge_add_one_self [of "- x"] by simp
  have "1 + x \<le> exp x" by simp
  then have "exp (- x) * (1 + x) \<le> exp (- x) * exp x"
    by (intro mult_left_mono) simp_all
  then show "exp (- x) * (1 + x) \<le> 1" by (simp add: exp_minus)
qed


lemma score_near_bounds:
  "71 < 100 * exp (- (6371 * (pi / 180000)) / 0.5)"
  "100 * exp (- (6371 * (pi / 180000)) / 0.5) < 88"
proof -
  define x where "x = 6371 * (pi / 180000) / 0.5"
  have lo: "0.14 \<le> x" using pi_ge_two by (simp add: x_def)
  have hi: "x \<le> 0.285" using pi_less_4 by (simp add: x_def)
  from lo have x0: "0 \<le> x" by simp
  have e: "exp (- (6371 * (pi / 180000)) / 0.5) = exp (- x)" by (simp add: x_def)
  from exp_minus_bounds(1) [OF x0] hi have "0.715 \<le> exp (- x)" by simp
  then show "71 < 100 * exp (- (6371 * (pi / 180000)) / 0.5)" unfolding e by simp
  show "100 * exp (- (6371 * (pi / 180000)) / 0.5) < 88"
  proof (rule ccontr)
    assume "\<not> 100 * exp (- (6371 * (pi / 180000)) / 0.5) < 88"
    then have "0.88 \<le> exp (- x)" unfolding e by simp
    moreover from lo have "1.14 \<le> 1 + x" by simp
    ultimately have "0.88 * 1.14 \<le> exp (- x) * (1 + x)"
      by (intro mult_mono) simp_all
    with exp_minus_bounds(2) [OF x0] show False by simp
  qed
qed

lemma score_far_bounds:
  "0 < 100 * exp (- (6371 * (pi / 36000)) / 0.5)"
  "100 * exp (- (6371 * (pi / 36000)) / 0.5) < 59"
proof -
  define x where "x = 6371 * (pi / 36000) / 0.5"
  have lo: "0.7 \<le> x" using pi_ge_two by (simp add: x_def)
  from lo have x0: "0 \<le> x" by simp
  have e: "exp (- (6371 * (pi / 36000)) / 0.5) = exp (- x)" by (simp add: x_def)
  show "0 < 100 * exp (- (6371 * (pi / 36000)) / 0.5)" by simp
  show "100 * exp (- (6371 * (pi / 36000)) / 0.5) < 59"
  proof (rule ccontr)
    assume "\<not> 100 * exp (- (6371 * (pi / 36000)) / 0.5) < 59"
    then have "0.59 \<le> exp (- x)" unfolding e by simp
    moreover from lo have "1.7 \<le> 1 + x" by simp
    ultimately have "0.59 * 1.7 \<le> exp (- x) * (1 + x)"
      by (intro mult_mono) simp_all
    with exp_minus_bounds(2) [OF x0] show False by simp
  qed
qed

theorem calculateProximityScores_score_witness:
  "[farCafe, nearCafe] \<noteq> [] \<and>
   calculateProximityScores [farCafe, nearCafe] [cellAt 0 0] =
     [scoreCell [farCafe, nearCafe] (cellAt 0 0)] \<and>
   proximityScore (scoreCell [farCafe, nearCafe] (cellAt 0 0)) =
     100 * exp (- calculateDistance (centerLat (cellAt 0 0)) (centerLon (cellAt 0 0))
                    (lat nearCafe) (lon nearCafe) / 0.5) \<and>
   calculateDistance (centerLat (cellAt 0 0)) (centerLon (cellAt 0 0)) (lat nearCafe) (lon nearCafe)
     < calculateDistance (centerLat (cellAt 0 0)) (centerLon (cellAt 0 0)) (lat farCafe)
         (lon farCafe) \<and>
   71 < proximityScore (scoreCell [farCafe, nearCafe] (cellAt 0 0)) \<and>
   proximityScore (scoreCell [farCafe, nearCafe] (cellAt 0 0)) < 88 \<and>
   0 < proximityScore (scoreCell [farCafe] (cellAt 0 0)) \<and>
   proximityScore (scoreCell [farCafe] (cellAt 0 0)) < 59 \<and>
   proximityScore (scoreCell [] (cellAt 0 0)) = 0 \<and>
   nearestBusiness (scoreCell [] (cellAt 0 0)) = None"
proof -
  let ?c = "cellAt 0 0"
  have both: "scoreCell [farCafe, nearCafe] ?c \<in> set (calculateProximityScores [farCafe, nearCafe] [?c])"
    and far: "scoreCell [farCafe] ?c \<in> set (calculateProximityScores [farCafe] [?c])"
    and none: "scoreCell [] ?c \<in> set (calculateProximityScores [] [?c])"
    by (simp_all add: calculateProximityScores_single)
  have order: "6371 * (pi / 180000) < 6371 * (pi / 36000)" by simp
  then have least: "min (6371 * (pi / 36000)) (6371 * (pi / 180000)) = 6371 * (pi / 180000)"
    by (simp add: min_def)
  from calculateProximityScores_score [of "[farCafe, nearCafe]" "[?c]"] both
  have "proximityScore (scoreCell [farCafe, nearCafe] ?c) =
      100 * exp (- Min ((\<lambda>b. haversineKm (centerLat (scoreCell [farCafe, nearCafe] ?c))
                 (centerLon (scoreCell [farCafe, nearCafe] ?c)) (lat b) (lon b))
                 ` set [farCafe, nearCafe]) / 0.5)"
    by blast
  then have s2: "proximityScore (scoreCell [farCafe, nearCafe] ?c) =
      100 * exp (- (6371 * (pi / 180000)) / 0.5)"
    by (simp only: scoreCell_fields list.set image_insert image_empty cafe_distances
        Min_insert finite.intros Min_singleton least)
       (simp add: least)
  from calculateProximityScores_score [of "[farCafe]" "[?c]"] far
  have "proximityScore (scoreCell [farCafe] ?c) =
      100 * exp (- Min ((\<lambda>b. haversineKm (centerLat (scoreCell [farCafe] ?c))
                 (centerLon (scoreCell [farCafe] ?c)) (lat b) (lon b)) ` set [farCafe]) / 0.5)"
    by blast
  then have s1: "proximityScore (scoreCell [farCafe] ?c) =
      100 * exp (- (6371 * (pi / 36000)) / 0.5)"
    by (simp only: scoreCell_fields list.set image_insert image_empty cafe_distances
        Min_singleton)
  from calculateProximityScores_score [of "[]" "[?c]"] none
  have s0: "proximityScore (scoreCell [] ?c) = 0 \<and> nearestBusiness (scoreCell [] ?c) = None"
    by blast
  have d2: "calculateDistance (centerLat ?c) (centerLon ?c) (lat nearCafe) (lon nearCafe) =
      6371 * (pi / 180000)"
    and d1: "calculateDistance (centerLat ?c) (centerLon ?c) (lat farCafe) (lon farCafe) =
      6371 * (pi / 36000)"
    by (simp_all only: calculateDistance_haversine cafe_distances)
  show ?thesis
    unfolding s2 s1 d2 d1 calculateProximityScores_single
    using s0 order score_near_bounds score_far_bounds by simp
qed

subsection \<open>Aggregate pipeline\<close>

lemma aggregate_fields:
  "st_gridCells (aggregate s) = calculateProximityScores (st_allBusinesses s) generateGridCells"
  "st_allBusinesses (aggregate s) = st_allBusinesses s"
  by (simp_all add: aggregate_def renderMap_def loadGrid_def)

lemma scoreCell_businessesByCategory:
  "businessesByCategory (scoreCell bs c) =
     foldl (\<lambda>m b. pushCategory (categoryKey b) b m) [] (businesses (scoreCell bs c))"
  by (simp add: scoreCell_def Let_def split: prod.split dist.split)

lemma fresh_cell_businesses: "businesses (gridCell n i j) = []"
  by (simp add: gridCell_def Let_def)

lemma first_pass_businesses:
  "\<forall>c\<in>set (calculateProximityScores bs generateGridCells).
     (\<exists>r<latCells. \<exists>k<lonCells. c = scoreCell bs (gridCell lonCells r k)) \<and>
     businesses c = filter (\<lambda>b. insideBounds (bounds c) (lat b) (lon b)) bs \<and>
     businessCount c = Some (length (businesses c)) \<and>
     businessesByCategory c =
       foldl (\<lambda>m b. pushCategory (categoryKey b) b m) [] (businesses c)"
proof
  fix c
  assume "c \<in> set (calculateProximityScores bs generateGridCells)"
  then obtain i j where ij: "i < latCells" "j < lonCells"
    and c: "c = scoreCell bs (gridCell lonCells i j)"
    unfolding set_calculateProximityScores set_generateGridCells by blast
  have "businesses c = filter (\<lambda>b. insideBounds (bounds c) (lat b) (lon b)) bs"
    unfolding c by (simp add: scoreCell_fields fresh_cell_businesses)
  moreover have "businessCount c = Some (length (businesses c))"
    unfolding c by (rule scoreCell_fields)
  moreover have "businessesByCategory c =
       foldl (\<lambda>m b. pushCategory (categoryKey b) b m) [] (businesses c)"
    unfolding c by (rule scoreCell_businessesByCategory)
  ultimately show "(\<exists>r<latCells. \<exists>k<lonCells. c = scoreCell bs (gridCell lonCells r k)) \<and>
     businesses c = filter (\<lambda>b. insideBounds (bounds c) (lat b) (lon b)) bs \<and>
     businessCount c = Some (length (businesses c)) \<and>
     businessesByCategory c =
       foldl (\<lambda>m b. pushCategory (categoryKey b) b m) [] (businesses c)"
    using ij c by blast
qed

text \<open>
  C2. Grid generation followed by a scoring pass, run again on the globals that an
  earlier run has left, with the same businesses, gives the same cells in the same
  order, hence the same scores and the same ranking; the result does not depend on the
  cells that were there before. Every field of every cell is computed in that pass:
  each cell is the scoring of a freshly generated cell, its \<open>businesses\<close> are exactly the
  businesses inside its bounds, its \<open>businessCount\<close> is their number, and its buckets by
  category are built from them alone.
\<close>

theorem aggregate_repeatable:
  "st_gridCells (aggregate (aggregate s)) = st_gridCells (aggregate s) \<and>
   map proximityScore (st_gridCells (aggregate (aggregate s))) =
     map proximityScore (st_gridCells (aggregate s)) \<and>
   map cell_id (st_gridCells (aggregate (aggregate s))) =
     map cell_id (st_gridCells (aggregate s)) \<and>
   (st_allBusinesses s' = st_allBusinesses s \<longrightarrow>
      st_gridCells (aggregate s') = st_gridCells (aggregate s)) \<and>
   (\<forall>c\<in>set (st_gridCells (aggregate (aggregate s))).
      (\<exists>r<latCells. \<exists>k<lonCells.
         c = scoreCell (st_allBusinesses s) (gridCell lonCells r k)) \<and>
      businesses c =
        filter (\<lambda>b. insideBounds (bounds c) (lat b) (lon b)) (st_allBusinesses s) \<and>
      businessCount c = Some (length (businesses c)) \<and>
      businessesByCategory c =
        foldl (\<lambda>m b. pushCategory (categoryKey b) b m) [] (businesses c))"
proof -
  have same: "st_gridCells (aggregate (aggregate s)) = st_gridCells (aggregate s)"
    by (simp add: aggregate_fields)
  have indep: "st_allBusinesses s' = st_allBusinesses s \<longrightarrow>
      st_gridCells (aggregate s') = st_gridCells (aggregate s)"
    by (simp add: aggregate_fields)
  have "st_gridCells (aggregate (aggregate s)) =
      calculateProximityScores (st_allBusinesses s) generateGridCells"
    by (simp add: aggregate_fields)
  with first_pass_businesses [of "st_allBusinesses s"] same indep show ?thesis
    by simp
qed

lemma cafe_in_cell: "insideBounds (bounds (cellAt 0 0)) (lat cafe) (lon cafe)"
  by (simp add: insideBounds_def cafe_def cellAt_0_0 bounds_gridCell PORTLAND_BBOX_def
      GRID_LAT_STEP_def GRID_LON_STEP_def)

theorem aggregate_repeatable_witness:
  "st_allBusinesses (aggregate appStart) = st_allBusinesses appStart \<and>
   aggregate appStart \<noteq> appStart \<and>
   st_gridCells (aggregate (aggregate appStart)) = st_gridCells (aggregate appStart) \<and>
   scoreCell [cafe] (cellAt 0 0) \<in> set (st_gridCells (aggregate (aggregate appStart))) \<and>
   businesses (scoreCell [cafe] (cellAt 0 0)) = [cafe] \<and>
   businessCount (scoreCell [cafe] (cellAt 0 0)) = Some 1 \<and>
   businessesByCategory (scoreCell [cafe] (cellAt 0 0)) = [(''cafe'', [cafe])]"
proof -
  let ?c = "scoreCell [cafe] (cellAt 0 0)"
  have bs: "st_allBusinesses appStart = [cafe]" by (simp add: appStart_def)
  have same: "st_allBusinesses (aggregate appStart) = st_allBusinesses appStart"
    by (rule aggregate_fields)
  have "length (st_gridCells (aggregate appStart)) = latCells * lonCells"
    by (simp add: aggregate_fields calculateProximityScores_def length_js_sort
        generateGridCells_def length_concat_grid)
  moreover have "length (st_gridCells appStart) = 0" by (simp add: appStart_def)
  ultimately have changed: "aggregate appStart \<noteq> appStart"
    by (auto simp: latCells_eq lonCells_eq)
  from aggregate_repeatable [of appStart "aggregate appStart"] same
  have again: "st_gridCells (aggregate (aggregate appStart)) = st_gridCells (aggregate appStart)"
    by blast
  have "cellAt 0 0 \<in> set generateGridCells"
    unfolding set_generateGridCells cellAt_0_0
    using latCells_eq lonCells_eq by (intro CollectI exI [of _ 0]) simp
  then have mem: "?c \<in> set (st_gridCells (aggregate (aggregate appStart)))"
    by (simp add: aggregate_fields bs set_calculateProximityScores)
  with aggregate_repeatable [of appStart]
  have fields: "businesses ?c =
        filter (\<lambda>b. insideBounds (bounds ?c) (lat b) (lon b)) (st_allBusinesses appStart) \<and>
      businessCount ?c = Some (length (businesses ?c)) \<and>
      businessesByCategory ?c =
        foldl (\<lambda>m b. pushCategory (categoryKey b) b m) [] (businesses ?c)"
    by blast
  then have b: "businesses ?c = [cafe]"
    by (simp add: bs scoreCell_fields(3) cafe_in_cell)
  have key: "categoryKey cafe = ''cafe''"
    by (simp add: categoryKey_def cafe_def)
  from fields have "businessCount ?c = Some 1 \<and> businessesByCategory ?c = [(''cafe'', [cafe])]"
    unfolding b by (simp add: key)
  with same changed again mem b show ?thesis by blast
qed

subsection \<open>Polygon area\<close>

lemma foldl_shoelaceStep:
  "foldl (shoelaceStep g) a [0..<k] =
     a + (\<Sum>i<k. lon (g ! i) * lat (g ! (Suc i mod length g)) -
                  lon (g ! (Suc i mod length g)) * lat (g ! i))"
  by (induction k) (simp_all add: shoelaceStep_def Let_def algebra_simps)

lemma shoelaceSum_sum:
  "shoelaceSum g =
     (\<Sum>i<length g. lon (g ! i) * lat (g ! (Suc i mod length g)) -
                     lon (g ! (Suc i mod length g)) * lat (g ! i))"
  by (simp add: shoelaceSum_def foldl_shoelaceStep)

lemma calculateArea_shoelaceSum:
  "calculateArea (Some g) =
     (if length g < 3 then 0.01
      else max (\<bar>shoelaceSum g / 2\<bar> * 111 * (111 * cos (north PORTLAND_BBOX * pi / 180))) 0.01)"
  by (simp add: calculateArea_def shoelaceSum_def Let_def)

lemma sum_mod_shift:
  fixes h :: "nat \<Rightarrow> real"
  shows "(\<Sum>i<n. h (Suc i mod n)) = (\<Sum>i<n. h i)"
proof (cases n)
  case 0
  then show ?thesis by simp
next
  case (Suc k)
  have "(\<Sum>i<Suc k. h (Suc i mod Suc k)) = (\<Sum>i<k. h (Suc i mod Suc k)) + h 0"
    by simp
  also have "(\<Sum>i<k. h (Suc i mod Suc k)) = (\<Sum>i<k. h (Suc i))"
    by (intro sum.cong) simp_all
  also have "(\<Sum>i<k. h (Suc i)) + h 0 = (\<Sum>i<Suc k. h i)"
    by (subst sum.lessThan_Suc_shift) simp
  finally show ?thesis by (simp add: Suc)
qed

lemma shoelaceSum_rotate1: "shoelaceSum (rotate1 g) = shoelaceSum g"
proof (cases "g = []")
  case True
  then show ?thesis by simp
next
  case False
  let ?n = "length g"
  let ?f = "\<lambda>i. lon (g ! i) * lat (g ! (Suc i mod ?n)) - lon (g ! (Suc i mod ?n)) * lat (g ! i)"
  from False have pos: "0 < ?n" by simp
  have "shoelaceSum (rotate1 g) = (\<Sum>i<?n. ?f (Suc i mod ?n))"
    unfolding shoelaceSum_sum using pos
    by (intro sum.cong) (simp_all add: nth_rotate1)
  also have "\<dots> = (\<Sum>i<?n. ?f i)" by (rule sum_mod_shift)
  finally show ?thesis by (simp add: shoelaceSum_sum)
qed

lemma shoelaceSum_rotate: "shoelaceSum (rotate m g) = shoelaceSum g"
  by (induction m) (simp_all add: shoelaceSum_rotate1)

lemma rev_index:
  assumes "i < n"
  shows "Suc (n - Suc (Suc i mod n)) mod n = n - Suc i"
proof (cases "Suc i < n")
  case True
  then show ?thesis by (simp add: Suc_diff_Suc)
next
  case False
  with assms have "Suc i = n" by simp
  then show ?thesis by auto
qed

lemma shoelaceSum_rev: "shoelaceSum (rev g) = - shoelaceSum g"
proof -
  let ?n = "length g"
  let ?f = "\<lambda>i. lon (g ! i) * lat (g ! (Suc i mod ?n)) - lon (g ! (Suc i mod ?n)) * lat (g ! i)"
  have "shoelaceSum (rev g) = (\<Sum>i<?n. - ?f (?n - Suc (Suc i mod ?n)))"
    unfolding shoelaceSum_sum length_rev
  proof (intro sum.cong refl)
    fix i
    assume "i \<in> {..<?n}"
    then have i: "i < ?n" by simp
    then have "0 < ?n" by auto
    then have "Suc i mod ?n < ?n" by simp
    with i show "lon (rev g ! i) * lat (rev g ! (Suc i mod ?n)) -
         lon (rev g ! (Suc i mod ?n)) * lat (rev g ! i) =
         - ?f (?n - Suc (Suc i mod ?n))"
      by (simp add: rev_nth rev_index)
  qed
  also have "\<dots> = - (\<Sum>i<?n. ?f (?n - Suc (Suc i mod ?n)))"
    by (rule sum_negf)
  also have "(\<Sum>i<?n. ?f (?n - Suc (Suc i mod ?n))) = (\<Sum>i<?n. ?f (?n - Suc i))"
    by (rule sum_mod_shift [of "\<lambda>k. ?f (?n - Suc k)"])
  also have "\<dots> = (\<Sum>i<?n. ?f i)"
    by (rule sum.nat_diff_reindex)
  finally show ?thesis by (simp add: shoelaceSum_sum)
qed

lemma shoelaceSum_closed:
  assumes "r \<noteq> []"
  shows "shoelaceSum (r @ [hd r]) = shoelaceSum r"
proof -
  let ?n = "length r"
  let ?c = "r @ [hd r]"
  from assms have pos: "0 < ?n" by simp
  from assms have hd: "hd r = r ! 0" by (simp add: hd_conv_nth)
  have len: "length ?c = Suc ?n" by simp
  have closing: "lon (?c ! ?n) * lat (?c ! (Suc ?n mod Suc ?n)) -
      lon (?c ! (Suc ?n mod Suc ?n)) * lat (?c ! ?n) = 0"
    using pos by (simp add: nth_append hd)
  have "shoelaceSum ?c =
      (\<Sum>i<?n. lon (?c ! i) * lat (?c ! (Suc i mod Suc ?n)) -
                 lon (?c ! (Suc i mod Suc ?n)) * lat (?c ! i)) +
      (lon (?c ! ?n) * lat (?c ! (Suc ?n mod Suc ?n)) -
       lon (?c ! (Suc ?n mod Suc ?n)) * lat (?c ! ?n))"
    by (simp only: shoelaceSum_sum len sum.lessThan_Suc)
  also have "\<dots> =
      (\<Sum>i<?n. lon (?c ! i) * lat (?c ! (Suc i mod Suc ?n)) -
                 lon (?c ! (Suc i mod Suc ?n)) * lat (?c ! i))"
    by (simp only: closing add_0_right)
  also have "\<dots> =
      (\<Sum>i<?n. lon (r ! i) * lat (r ! (Suc i mod ?n)) - lon (r ! (Suc i mod ?n)) * lat (r ! i))"
  proof (intro sum.cong refl)
    fix i
    assume "i \<in> {..<?n}"
    then have i: "i < ?n" by simp
    show "lon (?c ! i) * lat (?c ! (Suc i mod Suc ?n)) -
          lon (?c ! (Suc i mod Suc ?n)) * lat (?c ! i) =
          lon (r ! i) * lat (r ! (Suc i mod ?n)) - lon (r ! (Suc i mod ?n)) * lat (r ! i)"
    proof (cases "Suc i < ?n")
      case True
      with i show ?thesis by (simp add: nth_append)
    next
      case False
      with i have "Suc i = ?n" by simp
      with i show ?thesis by (simp add: nth_append hd)
    qed
  qed
  finally show ?thesis by (simp add: shoelaceSum_sum)
qed

lemma closed_ring_split:
  assumes "3 \<le> length ring" "hd ring = last ring"
  shows "ring = butlast ring @ [hd (butlast ring)]" "butlast ring \<noteq> []"
proof -
  from assms(1) have ne: "ring \<noteq> []" by auto
  from assms(1) show b: "butlast ring \<noteq> []"
    by (cases ring) (auto split: if_splits)
  then have "hd (butlast ring) = hd ring"
    using ne by (cases ring) (auto split: if_splits)
  with assms(2) ne show "ring = butlast ring @ [hd (butlast ring)]" by simp
qed

lemma shoelaceSum_rotateRing:
  assumes "3 \<le> length ring" "hd ring = last ring"
  shows "shoelaceSum (rotateRing m ring) = shoelaceSum ring"
proof -
  note split = closed_ring_split [OF assms]
  have "rotate m (butlast ring) \<noteq> []" using split(2) by simp
  then have "shoelaceSum (rotateRing m ring) = shoelaceSum (rotate m (butlast ring))"
    by (simp add: rotateRing_def Let_def shoelaceSum_closed)
  also have "\<dots> = shoelaceSum (butlast ring)" by (rule shoelaceSum_rotate)
  also have "\<dots> = shoelaceSum (butlast ring @ [hd (butlast ring)])"
    using split(2) by (simp add: shoelaceSum_closed)
  also have "\<dots> = shoelaceSum ring" using split(1) by simp
  finally show ?thesis .
qed

lemma length_rotateRing: "ring \<noteq> [] \<Longrightarrow> length (rotateRing m ring) = length ring"
  by (simp add: rotateRing_def Let_def)

text \<open>
  C9. For a closed ring of at least 3 points, \<open>calculateArea\<close> returns the same value
  for the ring started at another of its points, for the list of its points rotated as
  it is, and for the ring in the reverse direction.
\<close>

theorem calculateArea_rotation_reversal:
  assumes "3 \<le> length ring" and "hd ring = last ring"
  shows "calculateArea (Some (rotateRing m ring)) = calculateArea (Some ring) \<and>
         calculateArea (Some (rotate m ring)) = calculateArea (Some ring) \<and>
         calculateArea (Some (rev ring)) = calculateArea (Some ring)"
proof -
  from assms(1) have "ring \<noteq> []" by auto
  then show ?thesis
    by (simp add: calculateArea_shoelaceSum length_rotateRing shoelaceSum_rotateRing [OF assms]
        shoelaceSum_rotate shoelaceSum_rev)
qed

theorem calculateArea_rotation_reversal_witness:
  "3 \<le> length unitSquare \<and> hd unitSquare = last unitSquare \<and>
   rotateRing 1 unitSquare =
     [\<lparr>lat = 1, lon = 0\<rparr>, \<lparr>lat = 1, lon = 1\<rparr>, \<lparr>lat = 0, lon = 1\<rparr>, \<lparr>lat = 0, lon = 0\<rparr>,
      \<lparr>lat = 1, lon = 0\<rparr>] \<and>
   calculateArea (Some (rotateRing 1 unitSquare)) = calculateArea (Some unitSquare) \<and>
   calculateArea (Some (rotate 1 unitSquare)) = calculateArea (Some unitSquare) \<and>
   calculateArea (Some (rev unitSquare)) = calculateArea (Some unitSquare)"
proof -
  have h: "3 \<le> length unitSquare" "hd unitSquare = last unitSquare"
    by (simp_all add: unitSquare_def)
  have r: "rotateRing 1 unitSquare =
     [\<lparr>lat = 1, lon = 0\<rparr>, \<lparr>lat = 1, lon = 1\<rparr>, \<lparr>lat = 0, lon = 1\<rparr>, \<lparr>lat = 0, lon = 0\<rparr>,
      \<lparr>lat = 1, lon = 0\<rparr>]"
    by (simp add: rotateRing_def unitSquare_def)
  from calculateArea_rotation_reversal [OF h, of 1] h r show ?thesis by blast
qed

subsection \<open>Chaining\<close>

lemma findNext_None: "findNext None used ws = None"
  by (induction ws) simp_all

lemma growChain_None: "growChain ws (r, u, None) = (r, u, None)"
  by (simp add: growChain.simps findNext_None)

lemma growChain_extends:
  "\<exists>suffix. fst (growChain ws st) = fst st @ suffix"
proof (induction ws st rule: growChain.induct)
  case (1 ws result used currentEnd)
  show ?case
  proof (cases "length used < length ws")
    case False
    then show ?thesis by (simp add: growChain.simps)
  next
    case True
    show ?thesis
    proof (cases "findNext currentEnd used ws")
      case None
      with True show ?thesis by (simp add: growChain.simps)
    next
      case (Some wf)
      obtain w forward where wf: "wf = (w, forward)" by (cases wf)
      show ?thesis
      proof (cases forward)
        case True
        with 1(1) [OF \<open>length used < length ws\<close> Some [unfolded wf] refl] \<open>length used < length ws\<close> Some wf
        show ?thesis by (subst growChain.simps) auto
      next
        case False
        with 1(2) [OF \<open>length used < length ws\<close> Some [unfolded wf] refl] \<open>length used < length ws\<close> Some wf
        show ?thesis by (subst growChain.simps) auto
      qed
    qed
  qed
qed


lemma growChain_used:
  "length (fst (snd st)) \<le> length (fst (snd (growChain ws st)))"
proof (induction ws st rule: growChain.induct)
  case (1 ws result used currentEnd)
  show ?case
  proof (cases "length used < length ws")
    case False
    then show ?thesis by (simp add: growChain.simps)
  next
    case True
    show ?thesis
    proof (cases "findNext currentEnd used ws")
      case None
      with True show ?thesis by (simp add: growChain.simps)
    next
      case (Some wf)
      obtain w forward where wf: "wf = (w, forward)" by (cases wf)
      show ?thesis
      proof (cases forward)
        case True
        with 1(1) [OF \<open>length used < length ws\<close> Some [unfolded wf] refl] \<open>length used < length ws\<close> Some wf
        show ?thesis by (subst growChain.simps) auto
      next
        case False
        with 1(2) [OF \<open>length used < length ws\<close> Some [unfolded wf] refl] \<open>length used < length ws\<close> Some wf
        show ?thesis by (subst growChain.simps) auto
      qed
    qed
  qed
qed

lemma usedCount_pos: "0 < usedCount ws seed"
proof -
  have "length [way_id seed] \<le> usedCount ws seed"
    using growChain_used [of "(coords seed, [way_id seed], lastOf (coords seed))" ws]
    by (simp add: usedCount_def chainFrom_def)
  then show ?thesis by simp
qed

lemma complete_chain_nonempty:
  assumes "2 \<le> length ws" and "usedCount ws seed = length ws"
  shows "chainOf ws seed \<noteq> []"
proof (cases "coords seed = []")
  case True
  then have "chainFrom ws seed = ([], [way_id seed], None)"
    by (simp add: chainFrom_def lastOf_def growChain_None)
  then have "usedCount ws seed = 1" by (simp add: usedCount_def)
  with assms show ?thesis by simp
next
  case False
  obtain suffix where "chainOf ws seed = coords seed @ suffix"
    using growChain_extends [of ws "(coords seed, [way_id seed], lastOf (coords seed))"]
    by (auto simp: chainOf_def chainFrom_def)
  with False show ?thesis by simp
qed

lemma chainFrom_cases:
  obtains result used currentEnd where
    "chainFrom ws seed = (result, used, currentEnd)" "chainOf ws seed = result"
    "usedCount ws seed = length used" "chainEnd ws seed = currentEnd"
  by (cases "chainFrom ws seed") (simp add: chainOf_def usedCount_def chainEnd_def)

lemma seedLoop_complete:
  assumes "2 \<le> length ws" and "usedCount ws seed = length ws"
  shows "seedLoop ws (seed # rest) bestChain bestUsed = Some (closeComplete ws seed)"
proof -
  obtain result used currentEnd where cf: "chainFrom ws seed = (result, used, currentEnd)"
    "chainOf ws seed = result" "usedCount ws seed = length used"
    "chainEnd ws seed = currentEnd"
    by (rule chainFrom_cases)
  from assms have "result \<noteq> []"
    using complete_chain_nonempty cf(2) by blast
  with assms(2) cf show ?thesis
    by (simp add: closeComplete_def)
qed

lemma seedLoop_incomplete:
  assumes "usedCount ws seed \<noteq> length ws"
  shows "seedLoop ws (seed # rest) bestChain bestUsed =
     (if bestUsed < usedCount ws seed
      then seedLoop ws rest (Some (chainOf ws seed)) (usedCount ws seed)
      else seedLoop ws rest bestChain bestUsed)"
proof -
  obtain result used currentEnd where cf: "chainFrom ws seed = (result, used, currentEnd)"
    "chainOf ws seed = result" "usedCount ws seed = length used"
    "chainEnd ws seed = currentEnd"
    by (rule chainFrom_cases)
  with assms show ?thesis by simp
qed

declare seedLoop.simps(2) [simp del]

lemma seedLoop_first_complete:
  assumes "2 \<le> length ws"
  shows "k < length seeds \<Longrightarrow> usedCount ws (seeds ! k) = length ws \<Longrightarrow>
         \<forall>j<k. usedCount ws (seeds ! j) \<noteq> length ws \<Longrightarrow>
         seedLoop ws seeds bestChain bestUsed = Some (closeComplete ws (seeds ! k))"
proof (induction seeds arbitrary: k bestChain bestUsed)
  case Nil
  then show ?case by simp
next
  case (Cons s rest)
  show ?case
  proof (cases k)
    case 0
    with Cons.prems assms show ?thesis by (simp add: seedLoop_complete)
  next
    case (Suc k')
    with Cons.prems have s: "usedCount ws s \<noteq> length ws" by auto
    from Suc Cons.prems have "k' < length rest" "usedCount ws (rest ! k') = length ws"
      "\<forall>j<k'. usedCount ws (rest ! j) \<noteq> length ws"
      by auto
    then have "seedLoop ws rest bc bu = Some (closeComplete ws (rest ! k'))" for bc bu
      by (rule Cons.IH)
    with Suc show ?thesis by (simp add: seedLoop_incomplete [OF s])
  qed
qed

lemma seedLoop_no_better:
  "\<forall>s\<in>set seeds. usedCount ws s \<noteq> length ws \<and> usedCount ws s \<le> bestUsed \<Longrightarrow>
   seedLoop ws seeds bestChain bestUsed = useBest bestChain"
  by (induction seeds) (simp_all add: seedLoop_incomplete)

lemma seedLoop_best:
  "\<forall>s\<in>set seeds. usedCount ws s \<noteq> length ws \<Longrightarrow> k < length seeds \<Longrightarrow>
   \<forall>s\<in>set seeds. usedCount ws s \<le> usedCount ws (seeds ! k) \<Longrightarrow>
   \<forall>j<k. usedCount ws (seeds ! j) < usedCount ws (seeds ! k) \<Longrightarrow>
   bestUsed < usedCount ws (seeds ! k) \<Longrightarrow>
   seedLoop ws seeds bestChain bestUsed = useBest (Some (chainOf ws (seeds ! k)))"
proof (induction seeds arbitrary: k bestChain bestUsed)
  case Nil
  then show ?case by simp
next
  case (Cons s rest)
  from Cons.prems(1) have s: "usedCount ws s \<noteq> length ws" by simp
  show ?case
  proof (cases k)
    case 0
    with Cons.prems have "bestUsed < usedCount ws s"
      and "\<forall>x\<in>set rest. usedCount ws x \<noteq> length ws \<and> usedCount ws x \<le> usedCount ws s"
      by auto
    with 0 show ?thesis
      by (simp add: seedLoop_incomplete [OF s] seedLoop_no_better)
  next
    case (Suc k')
    with Cons.prems have rest: "\<forall>x\<in>set rest. usedCount ws x \<noteq> length ws" "k' < length rest"
      "\<forall>x\<in>set rest. usedCount ws x \<le> usedCount ws (rest ! k')"
      "\<forall>j<k'. usedCount ws (rest ! j) < usedCount ws (rest ! k')"
      by auto
    from Suc Cons.prems(4) have lt: "usedCount ws s < usedCount ws (rest ! k')" by auto
    from Suc Cons.prems(5) have bu: "bestUsed < usedCount ws (rest ! k')" by simp
    have "seedLoop ws rest bc b = useBest (Some (chainOf ws (rest ! k')))"
      if "b < usedCount ws (rest ! k')" for bc b
      using rest that by (rule Cons.IH)
    with Suc lt bu show ?thesis by (simp add: seedLoop_incomplete [OF s])
  qed
qed


lemma chainWays_many:
  "2 \<le> length waySegments \<Longrightarrow>
   chainWays waySegments = Inr (seedLoop waySegments waySegments None 0)"
  by (auto simp: chainWays_def)

lemmas chain_eval = chainFrom_def usedCount_def chainOf_def chainEnd_def segment_def
  growChain.simps firstOf_def lastOf_def

lemma useBest_Some:
  "useBest (Some chain) =
     (let cleaned = removeConsecutive chain;
          closed = (if coordsMatch (Some (hd cleaned)) (Some (last cleaned)) then cleaned
                    else cleaned @ [hd cleaned])
      in if 3 \<le> length chain \<and> 3 \<le> length closed then Some closed else None)"
proof (cases chain)
  case Nil
  then show ?thesis by (simp add: useBest_def)
next
  case (Cons p ps)
  then have "removeConsecutive chain \<noteq> []" by (simp add: removeConsecutive_def)
  then show ?thesis by (simp add: useBest_def Let_def)
qed

lemma openLine_chain:
  "usedCount openLine (openLine ! 0) = 1"
  "usedCount openLine (openLine ! 1) = 2"
  "chainOf openLine (openLine ! 1) =
     [\<lparr>lat = 0, lon = 0\<rparr>, \<lparr>lat = 0, lon = 1\<rparr>, \<lparr>lat = 1, lon = 1\<rparr>, \<lparr>lat = 1, lon = 1.00005\<rparr>]"
  "chainEnd openLine (openLine ! 1) = Some \<lparr>lat = 1, lon = 1.00005\<rparr>"
  by (simp_all add: openLine_def chain_eval)

lemma openLine_closed:
  "closeComplete openLine (openLine ! 1) =
     [\<lparr>lat = 0, lon = 0\<rparr>, \<lparr>lat = 0, lon = 1\<rparr>, \<lparr>lat = 1, lon = 1\<rparr>, \<lparr>lat = 0, lon = 0\<rparr>]"
  unfolding closeComplete_def openLine_chain
  by (simp add: closePolygon_def popDuplicates.simps Let_def firstOf_def)

lemma apartSegments_chain:
  "\<forall>s\<in>set apartSegments. usedCount apartSegments s = 1"
  "usedCount apartSegments (apartSegments ! 0) = 1"
  "usedCount apartSegments (apartSegments ! 1) = 1"
  "chainOf apartSegments (apartSegments ! 0) =
     [\<lparr>lat = 0, lon = 0\<rparr>, \<lparr>lat = 0, lon = 1\<rparr>, \<lparr>lat = 0, lon = 1.00005\<rparr>]"
  by (simp_all add: apartSegments_def chain_eval)

lemma threeSides_chain:
  "\<forall>s\<in>set threeSides. usedCount threeSides s \<le> 3"
  "usedCount threeSides (threeSides ! 0) = 1"
  "usedCount threeSides (threeSides ! 1) = 3"
  "chainOf threeSides (threeSides ! 1) =
     [\<lparr>lat = 0, lon = 0\<rparr>, \<lparr>lat = 0, lon = 1\<rparr>, \<lparr>lat = 1, lon = 1\<rparr>, \<lparr>lat = 1, lon = 0\<rparr>]"
  "map (usedCount threeSides) threeSides = [1, 3, 2, 1]"
  by (simp_all add: threeSides_def chain_eval)

text \<open>
  C4, as the code has it. When the chain of some seed uses every segment, \<open>chainWays\<close>
  returns for the first such seed, without trying the seeds after it: the chain itself
  when its end matches its first point, and otherwise the chain without the points at
  its end that match the point before them, with the first point appended unless the
  last point left matches it.
\<close>

theorem chainWays_complete_seed:
  assumes "2 \<le> length waySegments" and "k < length waySegments"
    and "usedCount waySegments (waySegments ! k) = length waySegments"
    and "\<forall>j<k. usedCount waySegments (waySegments ! j) \<noteq> length waySegments"
  shows "chainWays waySegments = Inr (Some (closeComplete waySegments (waySegments ! k)))"
proof -
  from assms(1) have "chainWays waySegments = Inr (seedLoop waySegments waySegments None 0)"
    by (rule chainWays_many)
  with seedLoop_first_complete [OF assms(1,2,3,4)] show ?thesis by simp
qed

theorem chainWays_complete_seed_witness:
  "2 \<le> length openLine \<and> 1 < length openLine \<and>
   usedCount openLine (openLine ! 1) = length openLine \<and>
   usedCount openLine (openLine ! 0) \<noteq> length openLine \<and>
   chainWays openLine =
     Inr (Some [\<lparr>lat = 0, lon = 0\<rparr>, \<lparr>lat = 0, lon = 1\<rparr>, \<lparr>lat = 1, lon = 1\<rparr>,
                \<lparr>lat = 0, lon = 0\<rparr>])"
proof -
  have n: "length openLine = 2" by (simp add: openLine_def)
  have len: "2 \<le> length openLine" "1 < length openLine"
    by (simp_all add: n)
  have full: "usedCount openLine (openLine ! 1) = length openLine"
    unfolding openLine_chain n by simp
  have before: "\<forall>j<1. usedCount openLine (openLine ! j) \<noteq> length openLine"
  proof (intro allI impI)
    fix j :: nat
    assume "j < 1"
    then have j: "j = 0" by simp
    show "usedCount openLine (openLine ! j) \<noteq> length openLine"
      unfolding j openLine_chain n by simp
  qed
  from chainWays_complete_seed [OF len full before]
  have "chainWays openLine =
     Inr (Some [\<lparr>lat = 0, lon = 0\<rparr>, \<lparr>lat = 0, lon = 1\<rparr>, \<lparr>lat = 1, lon = 1\<rparr>,
                \<lparr>lat = 0, lon = 0\<rparr>])"
    unfolding openLine_closed .
  moreover have "usedCount openLine (openLine ! 0) \<noteq> length openLine"
    unfolding openLine_chain n by simp
  ultimately show ?thesis using len full by blast
qed

lemma nearlyClosed_chain:
  "usedCount nearlyClosed (nearlyClosed ! 0) = 1"
  "usedCount nearlyClosed (nearlyClosed ! 1) = 2"
  "chainOf nearlyClosed (nearlyClosed ! 1) =
     [\<lparr>lat = 0, lon = 0\<rparr>, \<lparr>lat = 0, lon = 1\<rparr>, \<lparr>lat = 0.00008, lon = 0\<rparr>,
      \<lparr>lat = 0.00016, lon = 0\<rparr>]"
  "chainEnd nearlyClosed (nearlyClosed ! 1) = Some \<lparr>lat = 0.00016, lon = 0\<rparr>"
  by (simp_all add: nearlyClosed_def chain_eval)

lemma nearlyClosed_closed:
  "closeComplete nearlyClosed (nearlyClosed ! 1) =
     [\<lparr>lat = 0, lon = 0\<rparr>, \<lparr>lat = 0, lon = 1\<rparr>, \<lparr>lat = 0.00008, lon = 0\<rparr>]"
  unfolding closeComplete_def nearlyClosed_chain
  by (simp add: closePolygon_def popDuplicates.simps Let_def firstOf_def)

text \<open>
  C4, as stated, fails on \<open>nearlyClosed\<close>: the chain of the second segment uses both
  segments and ends at \<open>(0.00016, 0)\<close>, which does not coincide with its start
  \<open>(0, 0)\<close>, so the start was to be appended. The code drops the final point, which
  matches the point before it, finds that the point now last matches the start, and
  returns three points without appending anything.
\<close>

theorem chainWays_complete_counterexample:
  "usedCount nearlyClosed (nearlyClosed ! 1) = length nearlyClosed \<and>
   chainOf nearlyClosed (nearlyClosed ! 1) =
     [\<lparr>lat = 0, lon = 0\<rparr>, \<lparr>lat = 0, lon = 1\<rparr>, \<lparr>lat = 0.00008, lon = 0\<rparr>,
      \<lparr>lat = 0.00016, lon = 0\<rparr>] \<and>
   \<not> coordsMatch (chainEnd nearlyClosed (nearlyClosed ! 1))
        (firstOf (chainOf nearlyClosed (nearlyClosed ! 1))) \<and>
   closeAsStated (chainOf nearlyClosed (nearlyClosed ! 1))
       (chainEnd nearlyClosed (nearlyClosed ! 1)) =
     [\<lparr>lat = 0, lon = 0\<rparr>, \<lparr>lat = 0, lon = 1\<rparr>, \<lparr>lat = 0.00008, lon = 0\<rparr>,
      \<lparr>lat = 0.00016, lon = 0\<rparr>, \<lparr>lat = 0, lon = 0\<rparr>] \<and>
   chainWays nearlyClosed =
     Inr (Some [\<lparr>lat = 0, lon = 0\<rparr>, \<lparr>lat = 0, lon = 1\<rparr>, \<lparr>lat = 0.00008, lon = 0\<rparr>]) \<and>
   chainWays nearlyClosed \<noteq>
     Inr (Some (closeAsStated (chainOf nearlyClosed (nearlyClosed ! 1))
                  (chainEnd nearlyClosed (nearlyClosed ! 1))))"
proof -
  have n: "length nearlyClosed = 2" by (simp add: nearlyClosed_def)
  have len: "2 \<le> length nearlyClosed" "1 < length nearlyClosed"
    by (simp_all add: n)
  have full: "usedCount nearlyClosed (nearlyClosed ! 1) = length nearlyClosed"
    unfolding nearlyClosed_chain n by simp
  have before: "\<forall>j<1. usedCount nearlyClosed (nearlyClosed ! j) \<noteq> length nearlyClosed"
  proof (intro allI impI)
    fix j :: nat
    assume "j < 1"
    then have j: "j = 0" by simp
    show "usedCount nearlyClosed (nearlyClosed ! j) \<noteq> length nearlyClosed"
      unfolding j nearlyClosed_chain n by simp
  qed
  have "seedLoop nearlyClosed nearlyClosed None 0 =
      Some (closeComplete nearlyClosed (nearlyClosed ! 1))"
    using len full before by (rule seedLoop_first_complete)
  then have code: "chainWays nearlyClosed =
     Inr (Some [\<lparr>lat = 0, lon = 0\<rparr>, \<lparr>lat = 0, lon = 1\<rparr>, \<lparr>lat = 0.00008, lon = 0\<rparr>])"
    by (simp only: chainWays_many [OF len(1)] nearlyClosed_closed)
  have apart: "\<not> coordsMatch (chainEnd nearlyClosed (nearlyClosed ! 1))
        (firstOf (chainOf nearlyClosed (nearlyClosed ! 1)))"
    unfolding nearlyClosed_chain by (simp add: firstOf_def)
  have stated: "closeAsStated (chainOf nearlyClosed (nearlyClosed ! 1))
       (chainEnd nearlyClosed (nearlyClosed ! 1)) =
     [\<lparr>lat = 0, lon = 0\<rparr>, \<lparr>lat = 0, lon = 1\<rparr>, \<lparr>lat = 0.00008, lon = 0\<rparr>,
      \<lparr>lat = 0.00016, lon = 0\<rparr>, \<lparr>lat = 0, lon = 0\<rparr>]"
    unfolding nearlyClosed_chain by (simp add: closeAsStated_def firstOf_def)
  have differ: "chainWays nearlyClosed \<noteq>
     Inr (Some (closeAsStated (chainOf nearlyClosed (nearlyClosed ! 1))
                  (chainEnd nearlyClosed (nearlyClosed ! 1))))"
    unfolding stated code by simp
  from full nearlyClosed_chain(3) apart stated code differ show ?thesis by blast
qed

text \<open>
  C3, as the code has it. When no chain uses every segment, \<open>chainWays\<close> takes the chain
  of the first seed, in input order, that used the most segments. It returns \<open>null\<close>
  when this chain has fewer than 3 points. Otherwise it removes every point that matches
  the point before it, appends the first point unless the last point matches it, and
  returns the result if it has at least 3 points, the closing point counted, and
  \<open>null\<close> if not.
\<close>

theorem chainWays_best_effort:
  assumes "2 \<le> length waySegments"
    and "\<forall>s\<in>set waySegments. usedCount waySegments s \<noteq> length waySegments"
    and "k < length waySegments"
    and "\<forall>s\<in>set waySegments. usedCount waySegments s \<le> usedCount waySegments (waySegments ! k)"
    and "\<forall>j<k. usedCount waySegments (waySegments ! j) < usedCount waySegments (waySegments ! k)"
  shows "chainWays waySegments =
     Inr (let chain = chainOf waySegments (waySegments ! k);
              cleaned = removeConsecutive chain;
              closed = (if coordsMatch (Some (hd cleaned)) (Some (last cleaned)) then cleaned
                        else cleaned @ [hd cleaned])
          in if 3 \<le> length chain \<and> 3 \<le> length closed then Some closed else None)"
proof -
  from assms(1) have "chainWays waySegments = Inr (seedLoop waySegments waySegments None 0)"
    by (rule chainWays_many)
  moreover have "seedLoop waySegments waySegments None 0 =
      useBest (Some (chainOf waySegments (waySegments ! k)))"
    using assms(2,3,4,5) usedCount_pos by (rule seedLoop_best)
  ultimately show ?thesis by (simp add: useBest_Some Let_def)
qed

theorem chainWays_best_effort_witness:
  "2 \<le> length threeSides \<and> 1 < length threeSides \<and>
   map (usedCount threeSides) threeSides = [1, 3, 2, 1] \<and>
   chainWays threeSides =
     Inr (Some [\<lparr>lat = 0, lon = 0\<rparr>, \<lparr>lat = 0, lon = 1\<rparr>, \<lparr>lat = 1, lon = 1\<rparr>,
                \<lparr>lat = 1, lon = 0\<rparr>, \<lparr>lat = 0, lon = 0\<rparr>])"
proof -
  have n: "length threeSides = 4" by (simp add: threeSides_def)
  have h1: "2 \<le> length threeSides" and h3: "1 < length threeSides"
    by (simp_all add: n)
  have h2: "\<forall>s\<in>set threeSides. usedCount threeSides s \<noteq> length threeSides"
    using threeSides_chain(1) unfolding n by fastforce
  have h4: "\<forall>s\<in>set threeSides. usedCount threeSides s \<le> usedCount threeSides (threeSides ! 1)"
    unfolding threeSides_chain(3) by (rule threeSides_chain(1))
  have h5: "\<forall>j<1. usedCount threeSides (threeSides ! j) < usedCount threeSides (threeSides ! 1)"
  proof (intro allI impI)
    fix j :: nat
    assume "j < 1"
    then have j: "j = 0" by simp
    show "usedCount threeSides (threeSides ! j) < usedCount threeSides (threeSides ! 1)"
      unfolding j threeSides_chain by simp
  qed
  from chainWays_best_effort [OF h1 h2 h3 h4 h5]
  have "chainWays threeSides =
     Inr (Some [\<lparr>lat = 0, lon = 0\<rparr>, \<lparr>lat = 0, lon = 1\<rparr>, \<lparr>lat = 1, lon = 1\<rparr>,
                \<lparr>lat = 1, lon = 0\<rparr>, \<lparr>lat = 0, lon = 0\<rparr>])"
    unfolding threeSides_chain by (simp add: removeConsecutive_def Let_def)
  with h1 h3 threeSides_chain(5) show ?thesis by blast
qed

text \<open>
  C3, as stated, fails on \<open>apartSegments\<close>: no chain uses both segments, the best chain
  is \<open>(0, 0), (0, 1), (0, 1.00005)\<close>, and the ring returned for it is
  \<open>(0, 0), (0, 1), (0, 0)\<close>, which has only 2 distinct points; a ring with fewer than
  3 distinct points was to be reported as \<open>null\<close>.
\<close>

theorem chainWays_best_effort_counterexample:
  "usedCount apartSegments (apartSegments ! 0) \<noteq> length apartSegments \<and>
   usedCount apartSegments (apartSegments ! 1) \<noteq> length apartSegments \<and>
   chainWays apartSegments =
     Inr (Some [\<lparr>lat = 0, lon = 0\<rparr>, \<lparr>lat = 0, lon = 1\<rparr>, \<lparr>lat = 0, lon = 0\<rparr>]) \<and>
   card (set [\<lparr>lat = 0, lon = 0\<rparr>, \<lparr>lat = 0, lon = 1\<rparr>, \<lparr>lat = 0, lon = 0 :: real\<rparr>]) = 2 \<and>
   bestEffortAsStated (chainOf apartSegments (apartSegments ! 0)) = None \<and>
   chainWays apartSegments \<noteq> Inr (bestEffortAsStated (chainOf apartSegments (apartSegments ! 0)))"
proof -
  have n: "length apartSegments = 2" by (simp add: apartSegments_def)
  have "seedLoop apartSegments apartSegments None 0 =
      useBest (Some (chainOf apartSegments (apartSegments ! 0)))"
    by (rule seedLoop_best) (simp_all add: apartSegments_chain n)
  then have code: "chainWays apartSegments =
     Inr (Some [\<lparr>lat = 0, lon = 0\<rparr>, \<lparr>lat = 0, lon = 1\<rparr>, \<lparr>lat = 0, lon = 0\<rparr>])"
    unfolding apartSegments_chain
    by (simp add: chainWays_many n useBest_def removeConsecutive_def Let_def)
  have stated: "bestEffortAsStated (chainOf apartSegments (apartSegments ! 0)) = None"
    unfolding apartSegments_chain
    by (simp add: bestEffortAsStated_def removeConsecutive_def Let_def card_insert_if)
  have differ: "chainWays apartSegments \<noteq>
      Inr (bestEffortAsStated (chainOf apartSegments (apartSegments ! 0)))"
    unfolding stated code by simp
  have incomplete: "usedCount apartSegments (apartSegments ! 0) \<noteq> length apartSegments"
    "usedCount apartSegments (apartSegments ! 1) \<noteq> length apartSegments"
    unfolding apartSegments_chain n by simp_all
  have two: "card (set [\<lparr>lat = 0, lon = 0\<rparr>, \<lparr>lat = 0, lon = 1\<rparr>, \<lparr>lat = 0, lon = 0 :: real\<rparr>]) = 2"
    by (simp add: card_insert_if)
  from incomplete code two stated differ show ?thesis by blast
qed

end
